theory Spec2Isabelle
  imports Main "HOL-Library.AList" "HOL-Library.Sublist"
begin

section \<open>The image optimizer of imglizza (optimizar\_imagenes.py)\<close>

text \<open>
  The script converts every PNG of \<open>originales/Anillos\<close> into three sizes and two
  encodings with Pillow, and then commits and pushes the results with git. The program
  itself is control flow around library calls, so the model has three layers:
  \<^item> the world the script acts on (files, working directory, the subprocesses it has
    started, the lines it has printed) as a record that every function passes along;
  \<^item> what the libraries compute and cannot be read off the script (Pillow's decoder,
    converter, resizer and encoders, the exit status of git and what it does to the files,
    the name match of glob) as the fields of a record \<open>env\<close>, a parameter of every function: the theorems hold for any
    behaviour of these libraries unless they state a condition on it;
  \<^item> the methods of \<open>GitImageOptimizer\<close> and \<open>main\<close>, one definition each, in the order
    and with the names of the source. A Python exception is the left injection of a sum.
\<close>

subsection \<open>Values\<close>

text \<open>
  A path is the list of its components: \<open>os.path.join\<close> of components that hold no
  separator appends them, \<open>os.path.basename\<close> is the last component. Every path the
  script builds starts from the absolute \<open>repo_path\<close>, so the working directory never
  takes part in resolving one.
\<close>

type_synonym path = "string list"

datatype exn =
    FileNotFoundError
  | FileExistsError
  | NotADirectoryError
  | IsADirectoryError
  | DirectoryNotEmpty
  | CalledProcessError "string list" int
  | LibraryError string

abbreviation Raise :: "exn \<Rightarrow> exn + 'a" where
  "Raise \<equiv> Inl"

abbreviation Ret :: "'a \<Rightarrow> exn + 'a" where
  "Ret \<equiv> Inr"

record image =
  mode :: string
  width :: nat
  height :: nat

datatype encoding = WEBP | JPEG

datatype resampling = LANCZOS

text \<open>
  What a regular file holds: bytes the script did not write (a number stands for them),
  the output of \<open>Image.save\<close> (format, quality, the optimize flag and the image that was
  encoded), or text.
\<close>

datatype content =
    Bytes nat
  | Encoded encoding nat bool image
  | Chars string

text \<open>
  A directory entry. \<open>File n c\<close> is a regular file of \<open>n\<close> bytes; \<open>BrokenLink\<close> is an entry
  that a directory listing shows and \<open>os.stat\<close> cannot follow (a symbolic link whose target
  is gone).
\<close>

datatype node = Dir | File nat content | BrokenLink

record completed =
  returncode :: int
  stderr :: string

text \<open>
  The lines the script prints, one constructor for each \<open>print\<close> of the source (a run of
  fixed lines printed together, as by \<open>update_urls_info\<close>, is one message). Numbers are
  kept as they are computed, before the formatting.
\<close>

datatype message =
    MsgSetup
  | MsgSetupDone
  | MsgMoving
  | MsgMoved string
  | MsgMoveError string exn
  | MsgFolderRemoved
  | MsgOptimizing string nat
  | MsgSizeDone string nat nat
  | MsgError exn
  | MsgProcessing
  | MsgNoImages
  | MsgFound nat
  | MsgProcessed nat nat
  | MsgUploading
  | MsgPushed
  | MsgPushError string
  | MsgGitError exn
  | MsgUnexpected exn
  | MsgUrlsInfo
  | MsgBanner path
  | MsgNotProcessed
  | MsgAllDone
  | MsgNotUploaded
  | MsgTotalTime
  | MsgNoDirectory path
  | MsgNoRepository path

subsection \<open>The world and the libraries\<close>

text \<open>
  \<open>files\<close> maps a path to its entry (an association list: a listing has an order).
  \<open>saved\<close> lists the paths \<open>Image.save\<close> has written and \<open>procs\<close> the argument vectors
  handed to \<open>subprocess.run\<close>, both in the order of the calls; \<open>out\<close> is standard output.
\<close>

record world =
  files :: "(path \<times> node) list"
  cwd :: path
  saved :: "path list"
  procs :: "string list list"
  out :: "message list"

record env =
  decode :: "content \<Rightarrow> exn + image"
  convert :: "image \<Rightarrow> string \<Rightarrow> exn + image"
  thumbnail :: "image \<Rightarrow> nat \<times> nat \<Rightarrow> resampling \<Rightarrow> exn + image"
  encode :: "image \<Rightarrow> encoding \<Rightarrow> nat \<Rightarrow> bool \<Rightarrow> exn + nat"
  run :: "path \<Rightarrow> string list \<Rightarrow> (path \<times> node) list
            \<Rightarrow> (exn + completed) \<times> (path \<times> node) list"
  fnmatch :: "string \<Rightarrow> string \<Rightarrow> bool"
  replace_on_rename :: bool

text \<open>
  \<open>print\<close> appends a line. Standard output is taken to accept every line: a \<open>print\<close>
  that raises (a console encoding that cannot represent a character of the line) is not
  modelled.
\<close>

definition py_print :: "message \<Rightarrow> world \<Rightarrow> world" where
  "py_print m w = w\<lparr>out := out w @ [m]\<rparr>"

definition node_at :: "(path \<times> node) list \<Rightarrow> path \<Rightarrow> node option" where
  "node_at fs p = (if p = [] then Some Dir else map_of fs p)"

definition is_dir :: "(path \<times> node) list \<Rightarrow> path \<Rightarrow> bool" where
  "is_dir fs p = (node_at fs p = Some Dir)"

text \<open>\<open>os.path.exists\<close> follows links: a broken link does not exist.\<close>

definition os_path_exists :: "world \<Rightarrow> path \<Rightarrow> bool" where
  "os_path_exists w p =
     (case node_at (files w) p of
        Some Dir \<Rightarrow> True
      | Some (File n c) \<Rightarrow> True
      | Some BrokenLink \<Rightarrow> False
      | None \<Rightarrow> False)"

text \<open>
  \<open>os.path.getsize\<close> is \<open>os.stat(p).st_size\<close>: it raises \<open>OSError\<close> when the path cannot be
  followed. The size a directory reports depends on the platform and is taken as 0.
\<close>

definition os_path_getsize :: "world \<Rightarrow> path \<Rightarrow> exn + nat" where
  "os_path_getsize w p =
     (case node_at (files w) p of
        Some (File n c) \<Rightarrow> Ret n
      | Some Dir \<Rightarrow> Ret 0
      | Some BrokenLink \<Rightarrow> Raise FileNotFoundError
      | None \<Rightarrow> Raise FileNotFoundError)"

text \<open>
  \<open>Path(p).stem\<close>: the last component up to its last dot, when that dot is neither the
  first nor the last character of the name.
\<close>

definition stem_of_name :: "string \<Rightarrow> string" where
  "stem_of_name n =
     (let k = length (takeWhile (\<lambda>c. c \<noteq> CHR ''.'') (rev n))
      in if k < length n \<and> 0 < k \<and> 0 < length n - 1 - k then take (length n - 1 - k) n else n)"

definition stem :: "path \<Rightarrow> string" where
  "stem p = (if p = [] then [] else stem_of_name (last p))"

text \<open>
  \<open>glob.glob(os.path.join(d, pat))\<close> with a pattern in the last component only: the entries of
  \<open>d\<close> whose name matches, in listing order. No entry is looked at: a broken link is listed
  like a file. A name that starts with a dot is hidden from a pattern that does not.
\<close>

definition glob_glob :: "env \<Rightarrow> world \<Rightarrow> path \<Rightarrow> string \<Rightarrow> path list" where
  "glob_glob E w d pat =
     (if is_dir (files w) d
      then filter (\<lambda>p. p \<noteq> [] \<and> butlast p = d \<and> last p \<noteq> [] \<and> hd (last p) \<noteq> CHR ''.''
                        \<and> fnmatch E (last p) pat) (map fst (files w))
      else [])"

text \<open>
  \<open>Image.open\<close> reads the file at the path; what the decoder makes of its content is the
  library's. Pillow decodes lazily: an error it raises only when the pixels are loaded
  shows in the model at \<open>decode\<close>, \<open>convert\<close> or \<open>thumbnail\<close>.
\<close>

definition Image_open :: "env \<Rightarrow> world \<Rightarrow> path \<Rightarrow> exn + image" where
  "Image_open E w p =
     (case node_at (files w) p of
        Some (File n c) \<Rightarrow> decode E c
      | Some Dir \<Rightarrow> Raise IsADirectoryError
      | Some BrokenLink \<Rightarrow> Raise FileNotFoundError
      | None \<Rightarrow> Raise FileNotFoundError)"

text \<open>
  \<open>img.save(p, format, quality=q, optimize=True)\<close>: the directory of \<open>p\<close> must exist and
  \<open>p\<close> must not be a directory; the encoder may fail; otherwise the file at \<open>p\<close> is
  replaced. What a failed save leaves at its own path (Pillow removes a file it has created
  and leaves a truncated file where one was) is not modelled: the world stays as it was, and
  no claim below is about the path of a failed save.
\<close>

definition Image_save ::
  "env \<Rightarrow> image \<Rightarrow> path \<Rightarrow> encoding \<Rightarrow> nat \<Rightarrow> bool \<Rightarrow> world \<Rightarrow> (exn + unit) \<times> world" where
  "Image_save E img p enc q opt w =
     (if p = [] \<or> \<not> is_dir (files w) (butlast p) then (Raise FileNotFoundError, w)
      else if is_dir (files w) p then (Raise IsADirectoryError, w)
      else (case encode E img enc q opt of
              Inl e \<Rightarrow> (Raise e, w)
            | Inr n \<Rightarrow>
                (Ret (), w\<lparr>files := AList.update p (File n (Encoded enc q opt img)) (files w),
                           saved := saved w @ [p]\<rparr>)))"

subsection \<open>The optimizer object\<close>

record config =
  size_wh :: "nat \<times> nat"
  quality :: nat

text \<open>\<open>sizes_config\<close> is a dict; its items are kept in insertion order.\<close>

record optimizer =
  repo_path :: path
  original_folder :: path
  optimized_folder :: path
  processed_files :: "path list"
  sizes_config :: "(string \<times> config) list"

definition GitImageOptimizer :: "path \<Rightarrow> optimizer" where
  "GitImageOptimizer rp =
     \<lparr>repo_path = rp,
      original_folder = rp @ [''originales'', ''Anillos''],
      optimized_folder = rp @ [''optimizadas'', ''Anillos''],
      processed_files = [],
      sizes_config =
        [(''thumb'', \<lparr>size_wh = (300, 300), quality = 70\<rparr>),
         (''medium'', \<lparr>size_wh = (800, 800), quality = 80\<rparr>),
         (''large'', \<lparr>size_wh = (1200, 1200), quality = 85\<rparr>)]\<rparr>"

type_synonym state = "optimizer \<times> world"

subsection \<open>optimize\_image\<close>

text \<open>
  One round of the loop over \<open>sizes_config.items()\<close>. \<open>img.copy()\<close> is the value \<open>img\<close>
  itself: values are not shared, and \<open>thumbnail\<close>, which resizes in place, gets the copy.
\<close>

definition optimize_size ::
  "env \<Rightarrow> string \<Rightarrow> image \<Rightarrow> string \<times> config \<Rightarrow> state \<Rightarrow> (exn + unit) \<times> state" where
  "optimize_size E filename img item s =
     (let size_name = fst item; cfg = snd item; self = fst s; w = snd s in
      (case thumbnail E img (size_wh cfg) LANCZOS of
         Inl e \<Rightarrow> (Raise e, self, w)
       | Inr img_resized \<Rightarrow>
          (let webp_path = optimized_folder self @ [size_name, filename @ ''.webp''] in
           (case Image_save E img_resized webp_path WEBP (quality cfg) True w of
              (Inl e, w1) \<Rightarrow> (Raise e, self, w1)
            | (Inr u, w1) \<Rightarrow>
               (let jpg_path = optimized_folder self @ [size_name, filename @ ''.jpg''] in
                (case Image_save E img_resized jpg_path JPEG (quality cfg) True w1 of
                   (Inl e, w2) \<Rightarrow> (Raise e, self, w2)
                 | (Inr u, w2) \<Rightarrow>
                    (case os_path_getsize w2 webp_path of
                       Inl e \<Rightarrow> (Raise e, self, w2)
                     | Inr webp_size \<Rightarrow>
                        (case os_path_getsize w2 jpg_path of
                           Inl e \<Rightarrow> (Raise e, self, w2)
                         | Inr jpg_size \<Rightarrow>
                            (Ret (),
                             self\<lparr>processed_files :=
                                    processed_files self @ [webp_path, jpg_path]\<rparr>,
                             py_print (MsgSizeDone size_name webp_size jpg_size) w2)))))))))"

fun optimize_sizes ::
  "env \<Rightarrow> string \<Rightarrow> image \<Rightarrow> (string \<times> config) list \<Rightarrow> state \<Rightarrow> (exn + unit) \<times> state" where
  "optimize_sizes E filename img [] s = (Ret (), s)"
| "optimize_sizes E filename img (item # items) s =
     (case optimize_size E filename img item s of
        (Inl e, s1) \<Rightarrow> (Raise e, s1)
      | (Inr u, s1) \<Rightarrow> optimize_sizes E filename img items s1)"

text \<open>\<open>if img.mode in ('RGBA', 'LA', 'P'): img = img.convert('RGB')\<close>.\<close>

definition to_rgb :: "env \<Rightarrow> image \<Rightarrow> exn + image" where
  "to_rgb E img =
     (if mode img \<in> set [''RGBA'', ''LA'', ''P''] then convert E img ''RGB'' else Ret img)"

text \<open>The body of the \<open>try\<close>: open, convert when the mode asks for it, then the loop.\<close>

definition optimize_try :: "env \<Rightarrow> path \<Rightarrow> string \<Rightarrow> state \<Rightarrow> (exn + unit) \<times> state" where
  "optimize_try E image_path filename s =
     (case Image_open E (snd s) image_path of
        Inl e \<Rightarrow> (Raise e, s)
      | Inr img0 \<Rightarrow>
         (case to_rgb E img0 of
            Inl e \<Rightarrow> (Raise e, s)
          | Inr img \<Rightarrow> optimize_sizes E filename img (sizes_config (fst s)) s))"

text \<open>
  \<open>os.path.getsize(image_path)\<close> stands before the \<open>try\<close>: what it raises leaves the
  method. Everything the \<open>try\<close> raises is printed and turned into \<open>False\<close>.
\<close>

definition optimize_image :: "env \<Rightarrow> path \<Rightarrow> state \<Rightarrow> (exn + bool) \<times> state" where
  "optimize_image E image_path s =
     (let filename = stem image_path in
      (case os_path_getsize (snd s) image_path of
         Inl e \<Rightarrow> (Raise e, s)
       | Inr original_size \<Rightarrow>
          (case optimize_try E image_path filename
                  (fst s, py_print (MsgOptimizing filename original_size) (snd s)) of
             (Inl e, self1, w1) \<Rightarrow> (Ret False, self1, py_print (MsgError e) w1)
           | (Inr u, s1) \<Rightarrow> (Ret True, s1))))"

subsection \<open>The other library calls\<close>

text \<open>
  \<open>os.makedirs(p, exist_ok=True)\<close> walks down from the root and creates what is missing;
  an entry on the way that is not a directory stops it.
\<close>

fun makedirs_from ::
  "path \<Rightarrow> string list \<Rightarrow> (path \<times> node) list \<Rightarrow> (exn + unit) \<times> (path \<times> node) list" where
  "makedirs_from b [] fs = (Ret (), fs)"
| "makedirs_from b (c # cs) fs =
     (case node_at fs (b @ [c]) of
        None \<Rightarrow> makedirs_from (b @ [c]) cs (fs @ [(b @ [c], Dir)])
      | Some Dir \<Rightarrow> makedirs_from (b @ [c]) cs fs
      | Some (File n x) \<Rightarrow> (Raise (if cs = [] then FileExistsError else NotADirectoryError), fs)
      | Some BrokenLink \<Rightarrow> (Raise (if cs = [] then FileExistsError else NotADirectoryError), fs))"

definition os_makedirs :: "path \<Rightarrow> world \<Rightarrow> (exn + unit) \<times> world" where
  "os_makedirs p w =
     (case makedirs_from [] p (files w) of (r, fs) \<Rightarrow> (r, w\<lparr>files := fs\<rparr>))"

text \<open>\<open>with open(p, 'w') as f: f.write(s)\<close>.\<close>

definition write_text :: "path \<Rightarrow> string \<Rightarrow> world \<Rightarrow> (exn + unit) \<times> world" where
  "write_text p s w =
     (if p = [] \<or> \<not> is_dir (files w) (butlast p) then (Raise FileNotFoundError, w)
      else if is_dir (files w) p then (Raise IsADirectoryError, w)
      else (Ret (), w\<lparr>files := AList.update p (File (length s) (Chars s)) (files w)\<rparr>))"

text \<open>
  \<open>os.rename(src, dst)\<close> moves the entry \<open>src\<close> and all below it. Where the destination
  exists, Windows raises and POSIX replaces a file by a file and an empty directory by a
  directory: \<open>replace_on_rename\<close> says which.
\<close>

definition children :: "(path \<times> node) list \<Rightarrow> path \<Rightarrow> path list" where
  "children fs d = filter (\<lambda>p. p \<noteq> [] \<and> butlast p = d) (map fst fs)"

definition move_entries :: "path \<Rightarrow> path \<Rightarrow> (path \<times> node) list \<Rightarrow> (path \<times> node) list" where
  "move_entries src dst fs =
     map (\<lambda>(p, n). if prefix src p then (dst @ drop (length src) p, n) else (p, n))
       (AList.delete dst fs)"

definition os_rename :: "env \<Rightarrow> path \<Rightarrow> path \<Rightarrow> world \<Rightarrow> (exn + unit) \<times> world" where
  "os_rename E src dst w =
     (let fs = files w in
      if src = [] \<or> map_of fs src = None then (Raise FileNotFoundError, w)
      else if dst = [] \<or> \<not> is_dir fs (butlast dst) then (Raise FileNotFoundError, w)
      else if src = dst then (Ret (), w)
      else if map_of fs dst = None then (Ret (), w\<lparr>files := move_entries src dst fs\<rparr>)
      else if \<not> replace_on_rename E then (Raise FileExistsError, w)
      else if is_dir fs dst \<and> \<not> is_dir fs src then (Raise IsADirectoryError, w)
      else if is_dir fs src \<and> \<not> is_dir fs dst then (Raise NotADirectoryError, w)
      else if is_dir fs dst \<and> children fs dst \<noteq> [] then (Raise DirectoryNotEmpty, w)
      else (Ret (), w\<lparr>files := move_entries src dst fs\<rparr>))"

definition os_listdir :: "world \<Rightarrow> path \<Rightarrow> exn + string list" where
  "os_listdir w d =
     (if is_dir (files w) d then Ret (map last (children (files w) d))
      else if node_at (files w) d = None then Raise FileNotFoundError
      else Raise NotADirectoryError)"

definition os_rmdir :: "path \<Rightarrow> world \<Rightarrow> (exn + unit) \<times> world" where
  "os_rmdir d w =
     (if node_at (files w) d = None then (Raise FileNotFoundError, w)
      else if d = [] \<or> \<not> is_dir (files w) d then (Raise NotADirectoryError, w)
      else if children (files w) d \<noteq> [] then (Raise DirectoryNotEmpty, w)
      else (Ret (), w\<lparr>files := AList.delete d (files w)\<rparr>))"

definition os_chdir :: "path \<Rightarrow> world \<Rightarrow> (exn + unit) \<times> world" where
  "os_chdir p w =
     (if is_dir (files w) p then (Ret (), w\<lparr>cwd := p\<rparr>)
      else if node_at (files w) p = None then (Raise FileNotFoundError, w)
      else (Raise NotADirectoryError, w))"

text \<open>
  \<open>subprocess.run(args, check=...)\<close>: the call is recorded. What the process does is the
  library's: it is started in the working directory of the moment, sees the files and
  may change them (\<open>git add\<close> and \<open>git commit\<close> write below \<open>.git\<close>); it cannot change
  the working directory or the objects of the calling process. With \<open>check\<close>, an exit
  status other than 0 raises \<open>CalledProcessError\<close>.
\<close>

definition subprocess_run ::
  "env \<Rightarrow> string list \<Rightarrow> bool \<Rightarrow> world \<Rightarrow> (exn + completed) \<times> world" where
  "subprocess_run E args check w =
     (let res = run E (cwd w) args (files w);
          w1 = w\<lparr>files := snd res, procs := procs w @ [args]\<rparr> in
      (case fst res of
         Inl e \<Rightarrow> (Raise e, w1)
       | Inr r \<Rightarrow>
          if check \<and> returncode r \<noteq> 0 then (Raise (CalledProcessError args (returncode r)), w1)
          else (Ret r, w1)))"

text \<open>\<open>str(n)\<close> of a natural number.\<close>

fun str_nat :: "nat \<Rightarrow> string" where
  "str_nat n =
     (if n < 10 then [''0123456789'' ! n] else str_nat (n div 10) @ [''0123456789'' ! (n mod 10)])"

subsection \<open>setup\_git\_structure and move\_existing\_images\<close>

text \<open>The text of \<open>.gitignore\<close>, in UTF-8 (the accented letters are two bytes each).\<close>

definition gitignore_content :: string where
  "gitignore_content =
     concat (map (\<lambda>l. l @ [CHR 0x0A])
       [''# Im'' @ [CHR 0xC3, CHR 0xA1] @ ''genes originales (muy pesadas)'',
        ''originales/'',
        ''*.png'',
        ''*.jpg'',
        ''*.jpeg'',
        [],
        ''# Solo trackear optimizadas'',
        ''!optimizadas/'',
        ''optimizadas/**/*.webp'',
        ''optimizadas/**/*.jpg'',
        [],
        ''# Logs y temporales'',
        ''*.log'',
        ''__pycache__/'',
        ''.DS_Store'',
        ''Thumbs.db''])"

fun makedirs_each :: "path list \<Rightarrow> world \<Rightarrow> (exn + unit) \<times> world" where
  "makedirs_each [] w = (Ret (), w)"
| "makedirs_each (p # ps) w =
     (case os_makedirs p w of
        (Inl e, w1) \<Rightarrow> (Raise e, w1)
      | (Inr u, w1) \<Rightarrow> makedirs_each ps w1)"

definition setup_git_structure :: "state \<Rightarrow> (exn + unit) \<times> state" where
  "setup_git_structure s =
     (let self = fst s; w0 = py_print MsgSetup (snd s) in
      (case os_makedirs (original_folder self) w0 of
         (Inl e, w1) \<Rightarrow> (Raise e, self, w1)
       | (Inr u, w1) \<Rightarrow>
          (case makedirs_each
                  (map (\<lambda>size_name. optimized_folder self @ [size_name])
                     (map fst (sizes_config self))) w1 of
             (Inl e, w2) \<Rightarrow> (Raise e, self, w2)
           | (Inr u, w2) \<Rightarrow>
              (case write_text (repo_path self @ [''.gitignore'']) gitignore_content w2 of
                 (Inl e, w3) \<Rightarrow> (Raise e, self, w3)
               | (Inr u, w3) \<Rightarrow> (Ret (), self, py_print MsgSetupDone w3)))))"

fun move_each :: "env \<Rightarrow> optimizer \<Rightarrow> path list \<Rightarrow> world \<Rightarrow> world" where
  "move_each E self [] w = w"
| "move_each E self (image_path # image_files) w =
     (let filename = last image_path;
          destination = original_folder self @ [filename]
      in (case os_rename E image_path destination w of
            (Inl e, w1) \<Rightarrow> move_each E self image_files (py_print (MsgMoveError filename e) w1)
          | (Inr u, w1) \<Rightarrow> move_each E self image_files (py_print (MsgMoved filename) w1)))"

definition move_existing_images :: "env \<Rightarrow> state \<Rightarrow> (exn + unit) \<times> state" where
  "move_existing_images E s =
     (let self = fst s; w = snd s; anillos_path = repo_path self @ [''Anillos''] in
      if os_path_exists w anillos_path
      then (let w0 = py_print MsgMoving w;
                w1 = move_each E self (glob_glob E w0 anillos_path ''*.png'') w0
            in (case os_listdir w1 anillos_path of
                  Inl e \<Rightarrow> (Ret (), self, w1)
                | Inr names \<Rightarrow>
                   if names = []
                   then (case os_rmdir anillos_path w1 of
                           (Inl e, w2) \<Rightarrow> (Ret (), self, w2)
                         | (Inr u, w2) \<Rightarrow> (Ret (), self, py_print MsgFolderRemoved w2))
                   else (Ret (), self, w1)))
      else (Ret (), s))"

subsection \<open>process\_all\_images\<close>

fun process_loop :: "env \<Rightarrow> path list \<Rightarrow> nat \<Rightarrow> state \<Rightarrow> (exn + nat) \<times> state" where
  "process_loop E [] success_count s = (Ret success_count, s)"
| "process_loop E (image_path # image_files) success_count s =
     (case optimize_image E image_path s of
        (Inl e, s1) \<Rightarrow> (Raise e, s1)
      | (Inr ok, s1) \<Rightarrow>
         process_loop E image_files (if ok then success_count + 1 else success_count) s1)"

definition process_all_images :: "env \<Rightarrow> state \<Rightarrow> (exn + bool) \<times> state" where
  "process_all_images E s =
     (let self = fst s; w0 = py_print MsgProcessing (snd s);
          image_files = glob_glob E w0 (original_folder self) ''*.png''
      in if image_files = [] then (Ret False, self, py_print MsgNoImages w0)
         else (case process_loop E image_files 0
                      (self, py_print (MsgFound (length image_files)) w0) of
                 (Inl e, s1) \<Rightarrow> (Raise e, s1)
               | (Inr success_count, self1, w1) \<Rightarrow>
                  (Ret (0 < success_count), self1,
                   py_print (MsgProcessed success_count (length image_files)) w1)))"

subsection \<open>git\_commit\_and\_push\<close>

definition commit_message :: "nat \<Rightarrow> string" where
  "commit_message n =
     ''Optimizar im'' @ [CHR 0xC3, CHR 0xA1] @ ''genes - '' @ str_nat n @ '' archivos procesados''"

text \<open>The body of the \<open>try\<close>.\<close>

definition git_try :: "env \<Rightarrow> optimizer \<Rightarrow> world \<Rightarrow> (exn + bool) \<times> world" where
  "git_try E self w =
     (case os_chdir (repo_path self) w of
        (Inl e, w1) \<Rightarrow> (Raise e, w1)
      | (Inr u, w1) \<Rightarrow>
         (case subprocess_run E [''git'', ''add'', ''optimizadas/''] True w1 of
            (Inl e, w2) \<Rightarrow> (Raise e, w2)
          | (Inr r2, w2) \<Rightarrow>
             (case subprocess_run E [''git'', ''add'', ''.gitignore''] True w2 of
                (Inl e, w3) \<Rightarrow> (Raise e, w3)
              | (Inr r3, w3) \<Rightarrow>
                 (case subprocess_run E
                         [''git'', ''commit'', ''-m'',
                          commit_message (length (processed_files self))] True w3 of
                    (Inl e, w4) \<Rightarrow> (Raise e, w4)
                  | (Inr r4, w4) \<Rightarrow>
                     (case subprocess_run E [''git'', ''push''] False w4 of
                        (Inl e, w5) \<Rightarrow> (Raise e, w5)
                      | (Inr result, w5) \<Rightarrow>
                         if returncode result = 0 then (Ret True, py_print MsgPushed w5)
                         else (Ret False, py_print (MsgPushError (stderr result)) w5))))))"

text \<open>
  \<open>except subprocess.CalledProcessError\<close> comes first, \<open>except Exception\<close> takes the rest:
  both print and return \<open>False\<close>.
\<close>

definition git_commit_and_push :: "env \<Rightarrow> state \<Rightarrow> (exn + bool) \<times> state" where
  "git_commit_and_push E s =
     (let self = fst s in
      (case git_try E self (py_print MsgUploading (snd s)) of
         (Inl e, w1) \<Rightarrow>
           (Ret False, self,
            py_print (case e of CalledProcessError a c \<Rightarrow> MsgGitError e | _ \<Rightarrow> MsgUnexpected e) w1)
       | (Inr b, w1) \<Rightarrow> (Ret b, self, w1)))"

subsection \<open>run\_full\_optimization and main\<close>

definition update_urls_info :: "world \<Rightarrow> world" where
  "update_urls_info w = py_print MsgUrlsInfo w"

definition run_full_optimization :: "env \<Rightarrow> state \<Rightarrow> (exn + unit) \<times> state" where
  "run_full_optimization E s =
     (let self = fst s; w0 = py_print (MsgBanner (repo_path self)) (snd s) in
      (case setup_git_structure (self, w0) of
         (Inl e, s1) \<Rightarrow> (Raise e, s1)
       | (Inr u, s1) \<Rightarrow>
          (case move_existing_images E s1 of
             (Inl e, s2) \<Rightarrow> (Raise e, s2)
           | (Inr u, s2) \<Rightarrow>
              (case process_all_images E s2 of
                 (Inl e, s3) \<Rightarrow> (Raise e, s3)
               | (Inr ok, s3) \<Rightarrow>
                  if \<not> ok then (Ret (), fst s3, py_print MsgNotProcessed (snd s3))
                  else (case git_commit_and_push E s3 of
                          (Inl e, s4) \<Rightarrow> (Raise e, s4)
                        | (Inr pushed, self4, w4) \<Rightarrow>
                           (Ret (), self4,
                            py_print MsgTotalTime
                              (update_urls_info
                                 (py_print (if pushed then MsgAllDone else MsgNotUploaded)
                                    w4))))))))"

definition main_repo_path :: path where
  "main_repo_path = [''C:'', ''Users'', ''Lenovo'', ''Pictures'', ''imglizza'']"

definition main :: "env \<Rightarrow> world \<Rightarrow> (exn + unit) \<times> world" where
  "main E w =
     (let repo_path = main_repo_path in
      if \<not> os_path_exists w repo_path then (Ret (), py_print (MsgNoDirectory repo_path) w)
      else if \<not> os_path_exists w (repo_path @ [''.git''])
      then (Ret (), py_print (MsgNoRepository repo_path) w)
      else (case run_full_optimization E (GitImageOptimizer repo_path, w) of
              (r, optimizer, w1) \<Rightarrow> (r, w1)))"

text \<open>
  \<open>if __name__ == "__main__": main()\<close>. The interpreter ends with status 0 when \<open>main\<close>
  returns and with status 1 when an exception leaves it; the script never calls
  \<open>sys.exit\<close>.
\<close>

definition script :: "env \<Rightarrow> world \<Rightarrow> nat \<times> world" where
  "script E w = (case main E w of (Inl e, w1) \<Rightarrow> (1, w1) | (Inr u, w1) \<Rightarrow> (0, w1))"

subsection \<open>The artifacts of a source\<close>

text \<open>
  The path of an artifact as the specification gives it: a function of the output root, the
  profile name, the stem of the source and the encoding. \<open>planned\<close> lists the artifacts of
  one source in generation order: the profiles in catalog order, WEBP before JPEG.
\<close>

definition ext :: "encoding \<Rightarrow> string" where
  "ext enc = (case enc of WEBP \<Rightarrow> ''.webp'' | JPEG \<Rightarrow> ''.jpg'')"

definition artifact_path :: "path \<Rightarrow> string \<Rightarrow> string \<Rightarrow> encoding \<Rightarrow> path" where
  "artifact_path root size_name filename enc = root @ [size_name, filename @ ext enc]"

definition planned :: "path \<Rightarrow> string \<Rightarrow> (string \<times> config) list \<Rightarrow> path list" where
  "planned root filename items =
     concat (map (\<lambda>item. map (artifact_path root (fst item) filename) [WEBP, JPEG]) items)"

definition is_file :: "(path \<times> node) list \<Rightarrow> path \<Rightarrow> bool" where
  "is_file fs p = (case map_of fs p of Some (File n c) \<Rightarrow> True | _ \<Rightarrow> False)"

text \<open>
  \<open>wrote w w' ws\<close>: from \<open>w\<close> to \<open>w'\<close> exactly the paths \<open>ws\<close> were saved, each holds a file
  in \<open>w'\<close>, and no other entry, the working directory and the subprocesses are as before.
\<close>

definition wrote :: "world \<Rightarrow> world \<Rightarrow> path list \<Rightarrow> bool" where
  "wrote w w' ws \<longleftrightarrow>
     saved w' = saved w @ ws \<and> cwd w' = cwd w \<and> procs w' = procs w \<and>
     (\<forall>q. q \<notin> set ws \<longrightarrow> map_of (files w') q = map_of (files w) q) \<and>
     (\<forall>q \<in> set ws. is_file (files w') q)"

text \<open>
  The entry at \<open>q\<close> is an artifact of the image \<open>img\<close>: for a profile of the catalog and
  an encoding, \<open>q\<close> is the artifact's path and the file holds the encoding, at the profile's
  quality, of what \<open>thumbnail\<close> made of \<open>img\<close> for the profile's box.
\<close>

definition holds_artifact ::
  "env \<Rightarrow> image \<Rightarrow> path \<Rightarrow> string \<Rightarrow> (string \<times> config) list \<Rightarrow> (path \<times> node) list \<Rightarrow> path \<Rightarrow> bool" where
  "holds_artifact E img R fn items fs q \<longleftrightarrow>
     (\<exists>nm cfg enc r n. (nm, cfg) \<in> set items \<and> q = artifact_path R nm fn enc
        \<and> thumbnail E img (size_wh cfg) LANCZOS = Ret r
        \<and> map_of fs q = Some (File n (Encoded enc (quality cfg) True r)))"

subsection \<open>What a publish runs\<close>

text \<open>
  The four commands of \<open>git_commit_and_push\<close> for a manifest of \<open>n\<close> entries, and the
  paths that a list of commands hands to \<open>git add\<close>.
\<close>

definition publish_commands :: "nat \<Rightarrow> string list list" where
  "publish_commands n =
     [[''git'', ''add'', ''optimizadas/''],
      [''git'', ''add'', ''.gitignore''],
      [''git'', ''commit'', ''-m'', commit_message n],
      [''git'', ''push'']]"

definition staged :: "string list list \<Rightarrow> string list" where
  "staged cmds = concat (map (drop 2) (filter (\<lambda>args. take 2 args = [''git'', ''add'']) cmds))"

text \<open>
  The same four commands, each with its \<open>check\<close> flag. \<open>run_each\<close> starts the commands of
  a list in turn and stops after the first whose \<open>subprocess.run\<close> raises; it returns the
  commands it has started. \<open>attempted\<close> is what this gives for a publish: nothing when
  \<open>repo_path\<close> is not a directory, and otherwise the run of the four commands in
  \<open>repo_path\<close>.
\<close>

definition publish_plan :: "nat \<Rightarrow> (string list \<times> bool) list" where
  "publish_plan n =
     [([''git'', ''add'', ''optimizadas/''], True),
      ([''git'', ''add'', ''.gitignore''], True),
      ([''git'', ''commit'', ''-m'', commit_message n], True),
      ([''git'', ''push''], False)]"

fun run_each :: "env \<Rightarrow> (string list \<times> bool) list \<Rightarrow> world \<Rightarrow> string list list" where
  "run_each E [] w = []"
| "run_each E (c # cs) w =
     fst c # (case subprocess_run E (fst c) (snd c) w of
                (Inl e, w1) \<Rightarrow> []
              | (Inr r, w1) \<Rightarrow> run_each E cs w1)"

definition attempted :: "env \<Rightarrow> optimizer \<Rightarrow> world \<Rightarrow> string list list" where
  "attempted E self w =
     (if is_dir (files w) (repo_path self)
      then run_each E (publish_plan (length (processed_files self))) (w\<lparr>cwd := repo_path self\<rparr>)
      else [])"

subsection \<open>The batch\<close>

text \<open>
  \<open>outcomes\<close> lists what \<open>optimize_image\<close> returned for the sources in turn, up to an
  exception that leaves it. \<open>discovered\<close> are the sources \<open>process_all_images\<close> finds in a
  state, \<open>batch_start\<close> is the state in which its loop starts, and \<open>succeeded\<close> the number of
  sources for which \<open>optimize_image\<close> returned \<open>True\<close>. \<open>bootstrap\<close> is the part of
  \<open>run_full_optimization\<close> before the images are processed. \<open>quiet w w'\<close>: between \<open>w\<close> and
  \<open>w'\<close> nothing of a publish has happened (no subprocess, no change of directory, no line
  \<open>MsgUploading\<close>, which \<open>git_commit_and_push\<close> prints first).
\<close>

fun outcomes :: "env \<Rightarrow> path list \<Rightarrow> state \<Rightarrow> bool list" where
  "outcomes E [] s = []"
| "outcomes E (image_path # image_files) s =
     (case optimize_image E image_path s of
        (Inl e, s1) \<Rightarrow> []
      | (Inr ok, s1) \<Rightarrow> ok # outcomes E image_files s1)"

definition discovered :: "env \<Rightarrow> state \<Rightarrow> path list" where
  "discovered E s = glob_glob E (snd s) (original_folder (fst s)) ''*.png''"

definition batch_start :: "env \<Rightarrow> state \<Rightarrow> state" where
  "batch_start E s =
     (fst s, py_print (MsgFound (length (discovered E s))) (py_print MsgProcessing (snd s)))"

definition succeeded :: "env \<Rightarrow> state \<Rightarrow> nat" where
  "succeeded E s = length (filter (\<lambda>ok. ok) (outcomes E (discovered E s) (batch_start E s)))"

definition bootstrap :: "env \<Rightarrow> state \<Rightarrow> (exn + unit) \<times> state" where
  "bootstrap E s =
     (case setup_git_structure (fst s, py_print (MsgBanner (repo_path (fst s))) (snd s)) of
        (Inl e, s1) \<Rightarrow> (Raise e, s1)
      | (Inr u, s1) \<Rightarrow> move_existing_images E s1)"

definition quiet :: "world \<Rightarrow> world \<Rightarrow> bool" where
  "quiet w w' \<longleftrightarrow>
     cwd w' = cwd w \<and> procs w' = procs w \<and>
     (\<exists>ms. out w' = out w @ ms \<and> MsgUploading \<notin> set ms)"

subsection \<open>A concrete environment and a concrete world\<close>

text \<open>
  Libraries that behave: the decoder reads \<open>Bytes n\<close> as an RGBA picture of 2000 by \<open>n\<close>
  pixels and rejects \<open>Bytes 0\<close>; \<open>thumbnail\<close> shrinks to the box and keeps the sides in
  proportion; every encoder and every git command succeeds.
\<close>

definition demo_thumbnail :: "image \<Rightarrow> nat \<times> nat \<Rightarrow> resampling \<Rightarrow> exn + image" where
  "demo_thumbnail img box rs =
     (let x = fst box; y = snd box in
      if width img \<le> x \<and> height img \<le> y then Ret img
      else if height img = 0 \<or> y = 0 then Raise (LibraryError ''division by zero'')
      else if width img * y \<le> x * height img
      then Ret (img\<lparr>width := max 1 (width img * y div height img), height := y\<rparr>)
      else Ret (img\<lparr>width := x, height := max 1 (height img * x div width img)\<rparr>))"

definition demo_env :: env where
  "demo_env =
     \<lparr>decode = (\<lambda>c. case c of
                  Bytes n \<Rightarrow> if n = 0 then Raise (LibraryError ''cannot identify image file'')
                             else Ret \<lparr>mode = ''RGBA'', width = 2000, height = n\<rparr>
                | Encoded enc q opt img \<Rightarrow> Ret img
                | Chars s \<Rightarrow> Raise (LibraryError ''cannot identify image file'')),
      convert = (\<lambda>img m. Ret (img\<lparr>mode := m\<rparr>)),
      thumbnail = demo_thumbnail,
      encode = (\<lambda>img enc q opt. Ret (width img * height img div 10)),
      run = (\<lambda>d args fs. (Ret \<lparr>returncode = 0, stderr = []\<rparr>, fs)),
      fnmatch = (\<lambda>name pat. pat = ''*.png'' \<and> drop (length name - 4) name = ''.png''),
      replace_on_rename = True\<rparr>"

definition demo_self :: optimizer where
  "demo_self = GitImageOptimizer main_repo_path"

definition demo_dirs :: "(path \<times> node) list" where
  "demo_dirs =
     map (\<lambda>p. (p, Dir))
       [[''C:''], [''C:'', ''Users''], [''C:'', ''Users'', ''Lenovo''],
        [''C:'', ''Users'', ''Lenovo'', ''Pictures''],
        main_repo_path,
        main_repo_path @ [''.git''],
        main_repo_path @ [''originales''],
        main_repo_path @ [''originales'', ''Anillos''],
        main_repo_path @ [''optimizadas''],
        main_repo_path @ [''optimizadas'', ''Anillos''],
        main_repo_path @ [''optimizadas'', ''Anillos'', ''thumb''],
        main_repo_path @ [''optimizadas'', ''Anillos'', ''medium''],
        main_repo_path @ [''optimizadas'', ''Anillos'', ''large'']]"

definition demo_src :: path where
  "demo_src = main_repo_path @ [''originales'', ''Anillos'', ''a1.png'']"

definition demo_world :: world where
  "demo_world =
     \<lparr>files = demo_dirs @ [(demo_src, File 5000000 (Bytes 1000))],
      cwd = [''C:''], saved = [], procs = [], out = []\<rparr>"

text \<open>The same libraries, but the JPEG encoder fails at quality 80 (the profile \<open>medium\<close>).\<close>

definition faulty_env :: env where
  "faulty_env =
     demo_env\<lparr>encode := (\<lambda>img enc q opt.
        if enc = JPEG \<and> q = 80 then Raise (LibraryError ''encoder error'')
        else Ret (width img * height img div 10))\<rparr>"

text \<open>
  The optimizer after the source \<open>a1.png\<close> was processed, and libraries whose
  \<open>git push\<close> fails.
\<close>

definition demo_done :: optimizer where
  "demo_done = demo_self\<lparr>processed_files :=
     planned (optimized_folder demo_self) ''a1'' (sizes_config demo_self)\<rparr>"

definition offline_env :: env where
  "offline_env =
     demo_env\<lparr>run := (\<lambda>d args fs.
        (Ret \<lparr>returncode = (if args = [''git'', ''push''] then 1 else 0),
              stderr = (if args = [''git'', ''push''] then ''fatal: unable to access'' else [])\<rparr>,
         fs))\<rparr>"

text \<open>
  Libraries whose \<open>git commit\<close> ends with status 1 (nothing to commit), and a world in
  which the repository path does not exist.
\<close>

definition unchanged_env :: env where
  "unchanged_env =
     demo_env\<lparr>run := (\<lambda>d args fs.
        (Ret \<lparr>returncode = (if take 2 args = [''git'', ''commit''] then 1 else 0),
              stderr = []\<rparr>,
         fs))\<rparr>"

definition lost_world :: world where
  "lost_world = \<lparr>files = [([''C:''], Dir)], cwd = [''C:''], saved = [], procs = [], out = []\<rparr>"

text \<open>
  Three more worlds: one without a source; one in which the first entry of the source
  directory is a broken link named \<open>a0.png\<close>; one in which \<open>a0.png\<close> is a file that is
  not an image. In the last two the source \<open>a1.png\<close> follows. \<open>gitignore_entry\<close> is the
  file that \<open>setup_git_structure\<close> writes.
\<close>

definition empty_world :: world where
  "empty_world = \<lparr>files = demo_dirs, cwd = [''C:''], saved = [], procs = [], out = []\<rparr>"

definition broken_src :: path where
  "broken_src = main_repo_path @ [''originales'', ''Anillos'', ''a0.png'']"

definition broken_world :: world where
  "broken_world =
     \<lparr>files = demo_dirs @ [(broken_src, BrokenLink), (demo_src, File 5000000 (Bytes 1000))],
      cwd = [''C:''], saved = [], procs = [], out = []\<rparr>"

definition garbled_world :: world where
  "garbled_world =
     \<lparr>files = demo_dirs @ [(broken_src, File 17 (Bytes 0)), (demo_src, File 5000000 (Bytes 1000))],
      cwd = [''C:''], saved = [], procs = [], out = []\<rparr>"

definition gitignore_entry :: "path \<times> node" where
  "gitignore_entry =
     (main_repo_path @ [''.gitignore''], File (length gitignore_content) (Chars gitignore_content))"

subsection \<open>What the resizer is expected to do\<close>

text \<open>
  \<open>Image.thumbnail\<close> is Pillow's, not the script's. \<open>shrunk_to_fit d box d'\<close> says of the
  sizes \<open>d\<close> before and \<open>d'\<close> after what the specification expects of the resizer: the
  result is inside the box, an image that is inside the box already keeps its size, and the
  proportion of the sides is kept up to the rounding of one side to whole pixels
  (\<open>w'/h'\<close> and \<open>w/h\<close>, compared after cross-multiplying). \<open>codec_contract\<close> asks this
  of \<open>thumbnail\<close> for every box with positive sides, and asks of \<open>convert\<close> that it keeps
  the size.
\<close>

definition dims :: "image \<Rightarrow> nat \<times> nat" where
  "dims img = (width img, height img)"

definition shrunk_to_fit :: "nat \<times> nat \<Rightarrow> nat \<times> nat \<Rightarrow> nat \<times> nat \<Rightarrow> bool" where
  "shrunk_to_fit d box d' \<longleftrightarrow>
     fst d' \<le> fst box \<and> snd d' \<le> snd box
     \<and> (fst d \<le> fst box \<and> snd d \<le> snd box \<longrightarrow> d' = d)
     \<and> \<bar>int (fst d') * int (snd d) - int (snd d') * int (fst d)\<bar> \<le> int (max (fst d) (snd d))"

definition codec_contract :: "env \<Rightarrow> bool" where
  "codec_contract E \<longleftrightarrow>
     (\<forall>img box rs r. 0 < fst box \<and> 0 < snd box \<and> thumbnail E img box rs = Ret r
        \<longrightarrow> shrunk_to_fit (dims img) box (dims r))
     \<and> (\<forall>img m r. convert E img m = Ret r \<longrightarrow> dims r = dims img)"

section \<open>Properties\<close>

declare str_nat.simps [simp del]

subsection \<open>Image.save and one round of the loop\<close>

lemma Image_save_Inl: "Image_save E img p enc q opt w = (Inl e, w') \<Longrightarrow> w' = w"
  by (auto simp: Image_save_def split: if_splits sum.splits)

lemma Image_save_Inr:
  "Image_save E img p enc q opt w = (Inr u, w') \<Longrightarrow>
     \<exists>n. encode E img enc q opt = Ret n \<and> p \<noteq> [] \<and>
         w' = w\<lparr>files := AList.update p (File n (Encoded enc q opt img)) (files w),
                saved := saved w @ [p]\<rparr>"
  by (auto simp: Image_save_def split: if_splits sum.splits)

lemma optimize_size_Inr:
  assumes "optimize_size E fn img (nm, cfg) (self, w) = (Inr u, self', w')"
  shows "\<exists>r n1 n2. thumbnail E img (size_wh cfg) LANCZOS = Ret r
           \<and> encode E r WEBP (quality cfg) True = Ret n1
           \<and> encode E r JPEG (quality cfg) True = Ret n2
           \<and> self' = self\<lparr>processed_files := processed_files self @
                 [artifact_path (optimized_folder self) nm fn WEBP,
                  artifact_path (optimized_folder self) nm fn JPEG]\<rparr>
           \<and> w' = w\<lparr>files :=
                  AList.update (artifact_path (optimized_folder self) nm fn JPEG)
                    (File n2 (Encoded JPEG (quality cfg) True r))
                    (AList.update (artifact_path (optimized_folder self) nm fn WEBP)
                       (File n1 (Encoded WEBP (quality cfg) True r)) (files w)),
                saved := saved w @ [artifact_path (optimized_folder self) nm fn WEBP,
                                    artifact_path (optimized_folder self) nm fn JPEG],
                out := out w @ [MsgSizeDone nm n1 n2]\<rparr>"
  using assms
  apply (simp add: optimize_size_def Let_def artifact_path_def ext_def split: sum.splits prod.splits)
  apply (auto dest!: Image_save_Inr Image_save_Inl simp: os_path_getsize_def node_at_def update_conv' py_print_def split: option.splits node.splits)
  done

lemma optimize_size_Inl:
  assumes "optimize_size E fn img (nm, cfg) (self, w) = (Inl e, self', w')"
  shows "self' = self \<and> out w' = out w \<and>
         ((w' = w) \<or>
          (\<exists>r n1. thumbnail E img (size_wh cfg) LANCZOS = Ret r \<and>
             w' = w\<lparr>files := AList.update (artifact_path (optimized_folder self) nm fn WEBP)
                       (File n1 (Encoded WEBP (quality cfg) True r)) (files w),
                    saved := saved w @ [artifact_path (optimized_folder self) nm fn WEBP]\<rparr>))"
  using assms
  apply (simp add: optimize_size_def Let_def artifact_path_def ext_def split: sum.splits prod.splits)
  apply (auto dest!: Image_save_Inr Image_save_Inl simp: os_path_getsize_def node_at_def update_conv' py_print_def split: option.splits node.splits)
  done

lemma wrote_refl: "wrote w w []"
  by (simp add: wrote_def)

lemma wrote_out: "wrote w w' ws \<Longrightarrow> wrote w (w'\<lparr>out := x\<rparr>) ws"
  by (simp add: wrote_def)

lemma wrote_out_left: "wrote (w\<lparr>out := x\<rparr>) w' ws \<Longrightarrow> wrote w w' ws"
  by (simp add: wrote_def)

lemma wrote_trans: "wrote w w1 a \<Longrightarrow> wrote w1 w2 b \<Longrightarrow> wrote w w2 (a @ b)"
  unfolding wrote_def by (auto simp: is_file_def)

lemma wrote_save:
  "wrote w (w\<lparr>files := AList.update p (File n c) (files w), saved := saved w @ [p]\<rparr>) [p]"
  by (simp add: wrote_def is_file_def update_conv')

lemma wrote_save2:
  "wrote w (w\<lparr>files := AList.update p2 (File n2 c2) (AList.update p1 (File n1 c1) (files w)),
              saved := saved w @ [p1, p2], out := x\<rparr>) [p1, p2]"
  by (simp add: wrote_def is_file_def update_conv')

lemma planned_Cons:
  "planned R fn (item # items) =
     [artifact_path R (fst item) fn WEBP, artifact_path R (fst item) fn JPEG] @ planned R fn items"
  by (simp add: planned_def)

lemma planned_Nil: "planned R fn [] = []"
  by (simp add: planned_def)

subsection \<open>The loop over the profiles\<close>

text \<open>
  How far the loop came: \<open>k\<close> profiles were completed, and when the loop raised in
  profile \<open>k\<close>, at most the WEBP file of that profile was written besides.
\<close>

lemma optimize_sizes_progress:
  "optimize_sizes E fn img items (self, w) = (r, self', w') \<Longrightarrow>
     \<exists>k extra. k \<le> length items
       \<and> self' = self\<lparr>processed_files :=
                      processed_files self @ planned (optimized_folder self) fn (take k items)\<rparr>
       \<and> wrote w w' (planned (optimized_folder self) fn (take k items) @ extra)
       \<and> (case r of
            Inr u \<Rightarrow> k = length items \<and> extra = []
          | Inl e \<Rightarrow> k < length items
                     \<and> (extra = [] \<or>
                        extra = [artifact_path (optimized_folder self) (fst (items ! k)) fn WEBP]))"
proof (induction items arbitrary: self w)
  case Nil
  then show ?case by (auto simp: planned_Nil wrote_refl intro!: exI[of _ 0])
next
  case (Cons item items)
  obtain nm cfg where item: "item = (nm, cfg)" by (cases item)
  obtain r1 self1 w1 where step: "optimize_size E fn img (nm, cfg) (self, w) = (r1, self1, w1)"
    by (metis prod_cases3)
  show ?case
  proof (cases r1)
    case (Inl e)
    with Cons.prems step item have r: "r = Inl e" "self' = self1" "w' = w1" by auto
    from optimize_size_Inl[OF step[unfolded Inl]] have s: "self1 = self"
      and d: "w1 = w \<or> (\<exists>r n1. thumbnail E img (size_wh cfg) LANCZOS = Ret r \<and>
             w1 = w\<lparr>files := AList.update (artifact_path (optimized_folder self) nm fn WEBP)
                       (File n1 (Encoded WEBP (quality cfg) True r)) (files w),
                    saved := saved w @ [artifact_path (optimized_folder self) nm fn WEBP]\<rparr>)"
      by auto
    from d show ?thesis
    proof
      assume "w1 = w"
      then show ?thesis using r s
        by (auto simp: planned_Nil wrote_refl intro!: exI[of _ 0] exI[of _ "[]"])
    next
      assume "\<exists>r n1. thumbnail E img (size_wh cfg) LANCZOS = Ret r \<and>
             w1 = w\<lparr>files := AList.update (artifact_path (optimized_folder self) nm fn WEBP)
                       (File n1 (Encoded WEBP (quality cfg) True r)) (files w),
                    saved := saved w @ [artifact_path (optimized_folder self) nm fn WEBP]\<rparr>"
      then show ?thesis using r s item
        by (auto simp: planned_Nil wrote_save intro!: exI[of _ 0]
              exI[of _ "[artifact_path (optimized_folder self) nm fn WEBP]"])
    qed
  next
    case (Inr u)
    with Cons.prems step item
    have rest: "optimize_sizes E fn img items (self1, w1) = (r, self', w')" by auto
    from optimize_size_Inr[OF step[unfolded Inr]] obtain x where
      s1: "self1 = self\<lparr>processed_files := processed_files self @
                 [artifact_path (optimized_folder self) nm fn WEBP,
                  artifact_path (optimized_folder self) nm fn JPEG]\<rparr>"
      and w1: "wrote w w1 [artifact_path (optimized_folder self) nm fn WEBP,
                  artifact_path (optimized_folder self) nm fn JPEG]"
      by (auto simp: wrote_save2)
    from Cons.IH[OF rest] obtain k extra where
      k: "k \<le> length items"
      and s': "self' = self1\<lparr>processed_files :=
                      processed_files self1 @ planned (optimized_folder self1) fn (take k items)\<rparr>"
      and w': "wrote w1 w' (planned (optimized_folder self1) fn (take k items) @ extra)"
      and c: "(case r of
            Inr u \<Rightarrow> k = length items \<and> extra = []
          | Inl e \<Rightarrow> k < length items
                     \<and> (extra = [] \<or>
                        extra = [artifact_path (optimized_folder self1) (fst (items ! k)) fn WEBP]))"
      by blast
    have of1: "optimized_folder self1 = optimized_folder self" using s1 by simp
    show ?thesis
      apply (rule exI[of _ "Suc k"], rule exI[of _ extra])
      using k s' wrote_trans[OF w1 w'] c s1 item
      by (auto simp: planned_Cons of1 split: sum.splits)
  qed
qed


lemma artifact_path_inj:
  "artifact_path R nm fn enc = artifact_path R nm' fn enc' \<longleftrightarrow> nm = nm' \<and> enc = enc'"
  by (cases enc; cases enc') (auto simp: artifact_path_def ext_def)

lemma planned_mem:
  "q \<in> set (planned R fn items) \<longleftrightarrow>
     (\<exists>item \<in> set items. q = artifact_path R (fst item) fn WEBP \<or> q = artifact_path R (fst item) fn JPEG)"
  by (auto simp: planned_def)

lemma length_planned: "length (planned R fn items) = length items * length [WEBP, JPEG]"
  by (induction items) (simp_all add: planned_def)

lemma distinct_planned:
  "distinct (map fst items) \<Longrightarrow> distinct (planned R fn items)"
proof (induction items)
  case Nil
  then show ?case by (simp add: planned_def)
next
  case (Cons item items)
  then have "fst item \<notin> fst ` set items" by simp
  then have "artifact_path R (fst item) fn WEBP \<notin> set (planned R fn items)"
       "artifact_path R (fst item) fn JPEG \<notin> set (planned R fn items)"
    by (auto simp: planned_mem artifact_path_inj)
  with Cons show ?case by (simp add: planned_Cons artifact_path_inj)
qed

lemma holds_artifact_mono:
  "holds_artifact E img R fn items fs q \<Longrightarrow> set items \<subseteq> set items' \<Longrightarrow>
   holds_artifact E img R fn items' fs q"
  unfolding holds_artifact_def by blast

lemma planned_append: "planned R fn (xs @ ys) = planned R fn xs @ planned R fn ys"
  by (simp add: planned_def)

lemma planned_take_prefix:
  assumes "k \<le> length items"
      and "extra = [] \<or> (k < length items \<and> extra = [artifact_path R (fst (items ! k)) fn WEBP])"
  shows "prefix (planned R fn (take k items) @ extra) (planned R fn items)"
proof -
  have split: "planned R fn items = planned R fn (take k items) @ planned R fn (drop k items)"
    by (metis append_take_drop_id planned_append)
  from assms(2) show ?thesis
  proof
    assume "extra = []"
    then show ?thesis using split by (metis append_Nil2 prefixI)
  next
    assume a: "k < length items \<and> extra = [artifact_path R (fst (items ! k)) fn WEBP]"
    then have "drop k items = items ! k # drop (Suc k) items"
      by (simp add: Cons_nth_drop_Suc)
    then have "planned R fn (drop k items) = extra @ (artifact_path R (fst (items ! k)) fn JPEG # planned R fn (drop (Suc k) items))"
      using a by (simp add: planned_Cons)
    with split show ?thesis by (metis append.assoc prefixI)
  qed
qed

lemma planned_take_length:
  assumes "k < length items" "length extra \<le> 1"
  shows "planned R fn (take k items) @ extra \<noteq> planned R fn items"
proof
  assume "planned R fn (take k items) @ extra = planned R fn items"
  then have "length (planned R fn (take k items) @ extra) = length (planned R fn items)" by simp
  with assms show False by (simp add: length_planned min_def)
qed

text \<open>The loop in one statement: what was written is an initial part of the plan.\<close>

lemma optimize_sizes_wrote:
  assumes "optimize_sizes E fn img items (self, w) = (r, self', w')"
  shows "\<exists>ws. wrote w w' ws \<and> prefix ws (planned (optimized_folder self) fn items)
           \<and> ((\<exists>u. r = Ret u) \<longleftrightarrow> ws = planned (optimized_folder self) fn items)
           \<and> optimized_folder self' = optimized_folder self
           \<and> sizes_config self' = sizes_config self"
proof -
  from optimize_sizes_progress[OF assms] obtain k extra where
    k: "k \<le> length items"
    and s': "self' = self\<lparr>processed_files :=
                      processed_files self @ planned (optimized_folder self) fn (take k items)\<rparr>"
    and w': "wrote w w' (planned (optimized_folder self) fn (take k items) @ extra)"
    and c: "(case r of
            Inr u \<Rightarrow> k = length items \<and> extra = []
          | Inl e \<Rightarrow> k < length items
                     \<and> (extra = [] \<or>
                        extra = [artifact_path (optimized_folder self) (fst (items ! k)) fn WEBP]))"
    by blast
  show ?thesis
  proof (cases r)
    case (Inl e)
    with c have kk: "k < length items" and ex: "extra = [] \<or>
                        extra = [artifact_path (optimized_folder self) (fst (items ! k)) fn WEBP]"
      by auto
    from ex have len: "length extra \<le> 1" by auto
    from planned_take_prefix[OF k, of extra "optimized_folder self" fn] kk ex
    have "prefix (planned (optimized_folder self) fn (take k items) @ extra) (planned (optimized_folder self) fn items)"
      by blast
    with w' planned_take_length[OF kk len, of "optimized_folder self" fn] Inl s' show ?thesis
      by (intro exI[of _ "planned (optimized_folder self) fn (take k items) @ extra"]) auto
  next
    case (Inr u)
    with c have "k = length items" "extra = []" by auto
    with w' s' Inr show ?thesis
      by (intro exI[of _ "planned (optimized_folder self) fn items"]) auto
  qed
qed

lemma optimize_sizes_written:
  "optimize_sizes E fn img items (self, w) = (r, self', w') \<Longrightarrow>
   distinct (map fst items) \<Longrightarrow> wrote w w' ws \<Longrightarrow> q \<in> set ws \<Longrightarrow>
     holds_artifact E img (optimized_folder self) fn items (files w') q"
proof (induction items arbitrary: self w ws)
  case Nil
  then show ?case by (auto simp: wrote_def)
next
  case (Cons item items)
  obtain nm0 cfg0 where item: "item = (nm0, cfg0)" by (cases item)
  obtain r1 self1 w1 where step: "optimize_size E fn img (nm0, cfg0) (self, w) = (r1, self1, w1)"
    by (metis prod_cases3)
  let ?R = "optimized_folder self"
  show ?case
  proof (cases r1)
    case (Inl e)
    with Cons.prems(1) step item have r: "w' = w1" by auto
    from optimize_size_Inl[OF step[unfolded Inl]]
    have d: "w1 = w \<or> (\<exists>r n1. thumbnail E img (size_wh cfg0) LANCZOS = Ret r \<and>
             w1 = w\<lparr>files := AList.update (artifact_path ?R nm0 fn WEBP)
                       (File n1 (Encoded WEBP (quality cfg0) True r)) (files w),
                    saved := saved w @ [artifact_path ?R nm0 fn WEBP]\<rparr>)"
      by auto
    from d show ?thesis
    proof
      assume "w1 = w"
      with r Cons.prems(3,4) show ?thesis by (auto simp: wrote_def)
    next
      assume "\<exists>r n1. thumbnail E img (size_wh cfg0) LANCZOS = Ret r \<and>
             w1 = w\<lparr>files := AList.update (artifact_path ?R nm0 fn WEBP)
                       (File n1 (Encoded WEBP (quality cfg0) True r)) (files w),
                    saved := saved w @ [artifact_path ?R nm0 fn WEBP]\<rparr>"
      then obtain r0 n1 where th: "thumbnail E img (size_wh cfg0) LANCZOS = Ret r0"
        and w1: "w1 = w\<lparr>files := AList.update (artifact_path ?R nm0 fn WEBP)
                       (File n1 (Encoded WEBP (quality cfg0) True r0)) (files w),
                    saved := saved w @ [artifact_path ?R nm0 fn WEBP]\<rparr>" by blast
      from Cons.prems(3) r w1 have "ws = [artifact_path ?R nm0 fn WEBP]" by (simp add: wrote_def)
      with Cons.prems(4) have "q = artifact_path ?R nm0 fn WEBP" by simp
      with th w1 r item show ?thesis
        unfolding holds_artifact_def
        by (intro exI[of _ nm0] exI[of _ cfg0] exI[of _ WEBP] exI[of _ r0] exI[of _ n1])
           (simp add: update_conv')
    qed
  next
    case (Inr u)
    with Cons.prems(1) step item
    have rest: "optimize_sizes E fn img items (self1, w1) = (r, self', w')" by auto
    from optimize_size_Inr[OF step[unfolded Inr]] obtain r0 n1 n2 where
      th: "thumbnail E img (size_wh cfg0) LANCZOS = Ret r0"
      and s1: "self1 = self\<lparr>processed_files := processed_files self @
                 [artifact_path ?R nm0 fn WEBP, artifact_path ?R nm0 fn JPEG]\<rparr>"
      and w1: "w1 = w\<lparr>files :=
                  AList.update (artifact_path ?R nm0 fn JPEG)
                    (File n2 (Encoded JPEG (quality cfg0) True r0))
                    (AList.update (artifact_path ?R nm0 fn WEBP)
                       (File n1 (Encoded WEBP (quality cfg0) True r0)) (files w)),
                saved := saved w @ [artifact_path ?R nm0 fn WEBP, artifact_path ?R nm0 fn JPEG],
                out := out w @ [MsgSizeDone nm0 n1 n2]\<rparr>"
      by blast
    have of1: "optimized_folder self1 = ?R" using s1 by simp
    from optimize_sizes_wrote[OF rest] obtain ws1 where
      wr1: "wrote w1 w' ws1" and pre: "prefix ws1 (planned ?R fn items)"
      by (auto simp: of1)
    from Cons.prems(3) wr1 w1 have ws: "ws = [artifact_path ?R nm0 fn WEBP, artifact_path ?R nm0 fn JPEG] @ ws1"
      by (simp add: wrote_def)
    from Cons.prems(2) have dist: "distinct (map fst items)" and notin: "nm0 \<notin> fst ` set items"
      using item by auto
    show ?thesis
    proof (cases "q \<in> set ws1")
      case True
      from Cons.IH[OF rest dist wr1 True] show ?thesis
        by (auto simp: of1 intro: holds_artifact_mono)
    next
      case False
      with ws Cons.prems(4) have q: "q = artifact_path ?R nm0 fn WEBP \<or> q = artifact_path ?R nm0 fn JPEG"
        by auto
      from wr1 False have same: "map_of (files w') q = map_of (files w1) q" by (simp add: wrote_def)
      from q show ?thesis
      proof
        assume "q = artifact_path ?R nm0 fn WEBP"
        with same w1 th item show ?thesis
          unfolding holds_artifact_def
          by (intro exI[of _ nm0] exI[of _ cfg0] exI[of _ WEBP] exI[of _ r0] exI[of _ n1])
             (simp add: update_conv' artifact_path_inj)
      next
        assume "q = artifact_path ?R nm0 fn JPEG"
        with same w1 th item show ?thesis
          unfolding holds_artifact_def
          by (intro exI[of _ nm0] exI[of _ cfg0] exI[of _ JPEG] exI[of _ r0] exI[of _ n2])
             (simp add: update_conv' artifact_path_inj)
      qed
    qed
  qed
qed


subsection \<open>optimize\_image, case by case\<close>

lemma optimize_try_cases:
  assumes "optimize_try E p fn (self, w) = (r, self', w')"
  shows "(\<exists>e. Image_open E w p = Raise e \<and> r = Raise e \<and> self' = self \<and> w' = w)
       \<or> (\<exists>img0 e. Image_open E w p = Ret img0 \<and> to_rgb E img0 = Raise e \<and> r = Raise e
              \<and> self' = self \<and> w' = w)
       \<or> (\<exists>img0 img. Image_open E w p = Ret img0 \<and> to_rgb E img0 = Ret img
              \<and> optimize_sizes E fn img (sizes_config self) (self, w) = (r, self', w'))"
  using assms by (auto simp: optimize_try_def split: sum.splits)

lemma Image_open_py_print: "Image_open E (py_print m w) p = Image_open E w p"
  by (simp add: Image_open_def py_print_def)

lemma optimize_image_cases:
  assumes "optimize_image E p (self, w) = (r, self', w')"
      and "os_path_getsize w p = Ret sz"
  shows "(\<exists>e w1. optimize_try E p (stem p) (self, py_print (MsgOptimizing (stem p) sz) w)
                    = (Raise e, self', w1) \<and> r = Ret False \<and> w' = py_print (MsgError e) w1)
       \<or> (\<exists>u. optimize_try E p (stem p) (self, py_print (MsgOptimizing (stem p) sz) w)
                    = (Ret u, self', w') \<and> r = Ret True)"
  using assms by (auto simp: optimize_image_def Let_def split: sum.splits prod.splits)


lemma py_print_fields [simp]:
  "files (py_print m w) = files w" "cwd (py_print m w) = cwd w"
  "saved (py_print m w) = saved w" "procs (py_print m w) = procs w"
  "out (py_print m w) = out w @ [m]"
  by (simp_all add: py_print_def)

lemma wrote_py_print_right: "wrote w w' ws \<Longrightarrow> wrote w (py_print m w') ws"
  by (simp add: wrote_def)

lemma wrote_py_print_left: "wrote (py_print m w) w' ws \<Longrightarrow> wrote w w' ws"
  by (simp add: wrote_def)

lemma getsize_py_print [simp]: "os_path_getsize (py_print m w) p = os_path_getsize w p"
  by (simp add: os_path_getsize_def)

lemma optimize_image_Raise:
  "optimize_image E p (self, w) = (Raise e, self', w') \<longleftrightarrow>
     os_path_getsize w p = Raise e \<and> self' = self \<and> w' = w"
  by (auto simp: optimize_image_def Let_def split: sum.splits prod.splits)

lemma optimize_image_Ret:
  "optimize_image E p (self, w) = (Ret b, self', w') \<Longrightarrow> \<exists>sz. os_path_getsize w p = Ret sz"
  by (auto simp: optimize_image_def Let_def split: sum.splits prod.splits)

lemma optimize_image_progress:
  assumes run: "optimize_image E p (self, w) = (r, self', w')"
      and sz: "os_path_getsize w p = Ret sz"
  shows "\<exists>k extra. k \<le> length (sizes_config self)
       \<and> self' = self\<lparr>processed_files := processed_files self
                   @ planned (optimized_folder self) (stem p) (take k (sizes_config self))\<rparr>
       \<and> wrote w w' (planned (optimized_folder self) (stem p) (take k (sizes_config self)) @ extra)
       \<and> ((r = Ret True \<and> k = length (sizes_config self) \<and> extra = [])
          \<or> (r = Ret False
              \<and> (k < length (sizes_config self) \<or> sizes_config self = [])
              \<and> (extra = [] \<or> (k < length (sizes_config self) \<and> extra =
                   [artifact_path (optimized_folder self) (fst (sizes_config self ! k)) (stem p) WEBP]))
              \<and> (\<exists>e s1. optimize_try E p (stem p)
                            (self, py_print (MsgOptimizing (stem p) sz) w) = (Raise e, s1)
                        \<and> out w' = out (snd s1) @ [MsgError e])))"
proof -
  let ?w0 = "py_print (MsgOptimizing (stem p) sz) w"
  let ?R = "optimized_folder self"
  let ?items = "sizes_config self"
  from optimize_image_cases[OF run sz] show ?thesis
  proof
    assume "\<exists>e w1. optimize_try E p (stem p) (self, ?w0) = (Raise e, self', w1)
              \<and> r = Ret False \<and> w' = py_print (MsgError e) w1"
    then obtain e w1 where tr: "optimize_try E p (stem p) (self, ?w0) = (Raise e, self', w1)"
      and r: "r = Ret False" and w': "w' = py_print (MsgError e) w1" by blast
    have msg: "\<exists>e s1. optimize_try E p (stem p) (self, ?w0) = (Raise e, s1)
                        \<and> out w' = out (snd s1) @ [MsgError e]"
      using tr w' by auto
    from optimize_try_cases[OF tr]
    have "(self' = self \<and> w1 = ?w0) \<or>
          (\<exists>img. optimize_sizes E (stem p) img ?items (self, ?w0) = (Raise e, self', w1))"
      by auto
    then show ?thesis
    proof
      assume a: "self' = self \<and> w1 = ?w0"
      then have "wrote w w' []" using w' by (simp add: wrote_def)
      with a r msg show ?thesis
        by (intro exI[of _ 0] exI[of _ "[]"]) (auto simp: planned_Nil)
    next
      assume "\<exists>img. optimize_sizes E (stem p) img ?items (self, ?w0) = (Raise e, self', w1)"
      then obtain img where loop: "optimize_sizes E (stem p) img ?items (self, ?w0) = (Raise e, self', w1)"
        by blast
      from optimize_sizes_progress[OF loop] obtain k extra where
        k: "k < length ?items"
        and s': "self' = self\<lparr>processed_files := processed_files self @ planned ?R (stem p) (take k ?items)\<rparr>"
        and wr: "wrote ?w0 w1 (planned ?R (stem p) (take k ?items) @ extra)"
        and ex: "extra = [] \<or> extra = [artifact_path ?R (fst (?items ! k)) (stem p) WEBP]"
        by auto
      from wr w' have "wrote w w' (planned ?R (stem p) (take k ?items) @ extra)"
        by (auto intro: wrote_py_print_left wrote_py_print_right)
      with k s' ex r msg show ?thesis
        by (intro exI[of _ k] exI[of _ extra]) auto
    qed
  next
    assume "\<exists>u. optimize_try E p (stem p) (self, ?w0) = (Ret u, self', w') \<and> r = Ret True"
    then obtain u where tr: "optimize_try E p (stem p) (self, ?w0) = (Ret u, self', w')"
      and r: "r = Ret True" by blast
    from optimize_try_cases[OF tr] obtain img where
      loop: "optimize_sizes E (stem p) img ?items (self, ?w0) = (Ret u, self', w')"
      by auto
    from optimize_sizes_progress[OF loop] have
      s': "self' = self\<lparr>processed_files := processed_files self @ planned ?R (stem p) ?items\<rparr>"
      and wr: "wrote ?w0 w' (planned ?R (stem p) ?items)"
      by auto
    from wr have "wrote w w' (planned ?R (stem p) ?items)" by (rule wrote_py_print_left)
    with s' r show ?thesis
      by (intro exI[of _ "length ?items"] exI[of _ "[]"]) auto
  qed
qed

lemma optimize_image_written:
  assumes run: "optimize_image E p (self, w) = (r, self', w')"
      and dist: "distinct (map fst (sizes_config self))"
      and wr: "wrote w w' ws" and q: "q \<in> set ws"
  shows "\<exists>src img. Image_open E w p = Ret src \<and> to_rgb E src = Ret img
           \<and> holds_artifact E img (optimized_folder self) (stem p) (sizes_config self) (files w') q"
proof (cases "os_path_getsize w p")
  case (Inl e)
  with run have "w' = w" by (auto simp: optimize_image_def Let_def)
  with wr q show ?thesis by (simp add: wrote_def)
next
  case (Inr sz)
  let ?w0 = "py_print (MsgOptimizing (stem p) sz) w"
  have loop_case: ?thesis
    if loop: "optimize_sizes E (stem p) img (sizes_config self) (self, ?w0) = (r1, self', w1)"
      and opn: "Image_open E ?w0 p = Ret src" and rgb: "to_rgb E src = Ret img"
      and fs: "files w' = files w1" and sv: "saved w' = saved w1" and cw: "cwd w' = cwd w1"
      and pr: "procs w' = procs w1"
    for img r1 w1 src
  proof -
    from wr fs sv cw pr have "wrote ?w0 w1 ws" by (simp add: wrote_def)
    from optimize_sizes_written[OF loop dist this q] fs opn rgb show ?thesis
      by (auto simp: holds_artifact_def Image_open_py_print)
  qed
  from optimize_image_cases[OF run Inr] show ?thesis
  proof
    assume "\<exists>e w1. optimize_try E p (stem p) (self, ?w0) = (Raise e, self', w1)
              \<and> r = Ret False \<and> w' = py_print (MsgError e) w1"
    then obtain e w1 where tr: "optimize_try E p (stem p) (self, ?w0) = (Raise e, self', w1)"
      and w': "w' = py_print (MsgError e) w1" by blast
    from optimize_try_cases[OF tr]
    have "w1 = ?w0 \<or>
          (\<exists>src img. Image_open E ?w0 p = Ret src \<and> to_rgb E src = Ret img \<and>
             optimize_sizes E (stem p) img (sizes_config self) (self, ?w0) = (Raise e, self', w1))"
      by auto
    then show ?thesis
    proof
      assume "w1 = ?w0"
      with w' wr q show ?thesis by (simp add: wrote_def)
    next
      assume "\<exists>src img. Image_open E ?w0 p = Ret src \<and> to_rgb E src = Ret img \<and>
             optimize_sizes E (stem p) img (sizes_config self) (self, ?w0) = (Raise e, self', w1)"
      then show ?thesis using loop_case w' by auto
    qed
  next
    assume "\<exists>u. optimize_try E p (stem p) (self, ?w0) = (Ret u, self', w') \<and> r = Ret True"
    then obtain u where tr: "optimize_try E p (stem p) (self, ?w0) = (Ret u, self', w')" by blast
    from optimize_try_cases[OF tr] show ?thesis using loop_case by auto
  qed
qed


subsection \<open>What every saved file holds\<close>

lemma saved_artifact:
  assumes run: "optimize_image E image_path (self, w) = (r, self', w')"
      and dist: "distinct (map fst (sizes_config self))"
      and sv: "saved w' = saved w @ ws" and q: "q \<in> set ws"
  shows "\<exists>src img nm cfg enc resized n.
           Image_open E w image_path = Ret src \<and> to_rgb E src = Ret img
         \<and> (nm, cfg) \<in> set (sizes_config self)
         \<and> q = artifact_path (optimized_folder self) nm (stem image_path) enc
         \<and> thumbnail E img (size_wh cfg) LANCZOS = Ret resized
         \<and> map_of (files w') q = Some (File n (Encoded enc (quality cfg) True resized))"
proof -
  have "\<exists>sz. os_path_getsize w image_path = Ret sz"
  proof (cases "os_path_getsize w image_path")
    case (Inl e)
    with run have "w' = w" by (auto simp: optimize_image_def Let_def)
    with sv q show ?thesis by simp
  next
    case (Inr sz)
    then show ?thesis by blast
  qed
  then obtain sz where sz: "os_path_getsize w image_path = Ret sz" by blast
  from optimize_image_progress[OF run sz] obtain ws' where wr: "wrote w w' ws'" by blast
  with sv have "ws' = ws" by (simp add: wrote_def)
  with wr have wr': "wrote w w' ws" by simp
  from optimize_image_written[OF run dist wr' q] show ?thesis
    unfolding holds_artifact_def by blast
qed

subsection \<open>git\_commit\_and\_push\<close>

lemma subprocess_run_effect:
  "subprocess_run E args check w = (r, w') \<Longrightarrow>
     procs w' = procs w @ [args] \<and> cwd w' = cwd w \<and> saved w' = saved w \<and> out w' = out w"
  by (auto simp: subprocess_run_def Let_def split: sum.splits if_splits)

lemma os_chdir_effect:
  "os_chdir p w = (r, w') \<Longrightarrow>
     (is_dir (files w) p \<and> r = Ret () \<and> w' = w\<lparr>cwd := p\<rparr>)
     \<or> (\<not> is_dir (files w) p \<and> (\<exists>e. r = Raise e) \<and> w' = w)"
  by (auto simp: os_chdir_def split: if_splits)

lemma git_try_effect:
  assumes "git_try E self w = (r, w')"
  shows "saved w' = saved w
       \<and> (\<exists>cmds. procs w' = procs w @ cmds
              \<and> prefix cmds (publish_commands (length (processed_files self)))
              \<and> (r = Ret True \<longrightarrow> cmds = publish_commands (length (processed_files self)))
              \<and> (is_dir (files w) (repo_path self) \<longrightarrow> cmds \<noteq> [])
              \<and> (\<not> is_dir (files w) (repo_path self) \<longrightarrow> cmds = [] \<and> (\<exists>e. r = Raise e)))
       \<and> cwd w' = (if is_dir (files w) (repo_path self) then repo_path self else cwd w)"
proof (cases "is_dir (files w) (repo_path self)")
  case False
  with assms show ?thesis
    by (auto simp: git_try_def os_chdir_def split: if_splits)
next
  case True
  obtain r2 w2 where a2: "subprocess_run E [''git'', ''add'', ''optimizadas/''] True (w\<lparr>cwd := repo_path self\<rparr>) = (r2, w2)"
    by (metis surj_pair)
  obtain r3 w3 where a3: "subprocess_run E [''git'', ''add'', ''.gitignore''] True w2 = (r3, w3)"
    by (metis surj_pair)
  obtain r4 w4 where a4: "subprocess_run E [''git'', ''commit'', ''-m'', commit_message (length (processed_files self))] True w3 = (r4, w4)"
    by (metis surj_pair)
  obtain r5 w5 where a5: "subprocess_run E [''git'', ''push''] False w4 = (r5, w5)"
    by (metis surj_pair)
  note e2 = subprocess_run_effect[OF a2] and e3 = subprocess_run_effect[OF a3]
    and e4 = subprocess_run_effect[OF a4] and e5 = subprocess_run_effect[OF a5]
  from assms True a2 a3 a4 a5 e2 e3 e4 e5 show ?thesis
    by (auto simp: git_try_def os_chdir_def publish_commands_def
             split: sum.splits if_splits)
qed

lemma git_commit_and_push_effect:
  assumes "git_commit_and_push E (self, w) = (r, self', w')"
  shows "self' = self \<and> saved w' = saved w
       \<and> (r = Ret True \<or> r = Ret False)
       \<and> (\<exists>cmds. procs w' = procs w @ cmds
              \<and> prefix cmds (publish_commands (length (processed_files self)))
              \<and> (r = Ret True \<longrightarrow> cmds = publish_commands (length (processed_files self)))
              \<and> (is_dir (files w) (repo_path self) \<longrightarrow> cmds \<noteq> []))
       \<and> cwd w' = (if is_dir (files w) (repo_path self) then repo_path self else cwd w)
       \<and> (\<exists>ms. out w' = out w @ MsgUploading # ms)"
proof -
  obtain r1 w1 where g: "git_try E self (py_print MsgUploading w) = (r1, w1)"
    by (metis surj_pair)
  from git_try_effect[OF g] have
    f: "saved w1 = saved w"
    and c: "\<exists>cmds. procs w1 = procs w @ cmds
              \<and> prefix cmds (publish_commands (length (processed_files self)))
              \<and> (r1 = Ret True \<longrightarrow> cmds = publish_commands (length (processed_files self)))
              \<and> (is_dir (files w) (repo_path self) \<longrightarrow> cmds \<noteq> [])"
    and d: "cwd w1 = (if is_dir (files w) (repo_path self) then repo_path self else cwd w)"
    by auto
  have o: "\<exists>ms. out w1 = out w @ MsgUploading # ms"
    using g
    by (auto simp: git_try_def os_chdir_def subprocess_run_def Let_def
             split: sum.splits if_splits prod.splits)
  from assms g f c d o show ?thesis
    by (auto simp: git_commit_and_push_def Let_def split: sum.splits)
qed


lemma staged_prefix:
  assumes "prefix cmds (publish_commands n)"
  shows "set (staged cmds) \<subseteq> {''optimizadas/'', ''.gitignore''}"
proof -
  from assms have "set cmds \<subseteq> set (publish_commands n)" by (rule set_mono_prefix)
  then show ?thesis
    by (auto simp: staged_def publish_commands_def dest!: subsetD)
qed

lemma map_fst_publish_plan: "map fst (publish_plan n) = publish_commands n"
  by (simp add: publish_plan_def publish_commands_def)

lemma run_each_prefix: "prefix (run_each E cs w) (map fst cs)"
  by (induction cs arbitrary: w) (auto split: sum.splits prod.splits)

lemma attempted_prefix:
  "prefix (attempted E self w) (publish_commands (length (processed_files self)))"
  using run_each_prefix[of E "publish_plan (length (processed_files self))"]
  by (simp add: attempted_def map_fst_publish_plan)

lemma subprocess_run_out:
  "subprocess_run E args check (w\<lparr>out := ms\<rparr>)
   = (fst (subprocess_run E args check w), (snd (subprocess_run E args check w))\<lparr>out := ms\<rparr>)"
  by (simp add: subprocess_run_def Let_def split: sum.splits)

lemma run_each_out: "run_each E cs (w\<lparr>out := ms\<rparr>) = run_each E cs w"
proof (induction cs arbitrary: w)
  case Nil
  show ?case by simp
next
  case (Cons c cs)
  obtain r w1 where s: "subprocess_run E (fst c) (snd c) w = (r, w1)" by (metis surj_pair)
  then have "subprocess_run E (fst c) (snd c) (w\<lparr>out := ms\<rparr>) = (r, w1\<lparr>out := ms\<rparr>)"
    by (simp add: subprocess_run_out)
  with s Cons.IH show ?case by (cases r) simp_all
qed

lemma git_try_procs:
  assumes "git_try E self w = (r, w')"
  shows "procs w' = procs w @ attempted E self w"
proof (cases "is_dir (files w) (repo_path self)")
  case False
  with assms show ?thesis
    by (auto simp: git_try_def os_chdir_def attempted_def split: if_splits)
next
  case True
  obtain r2 w2 where a2: "subprocess_run E [''git'', ''add'', ''optimizadas/''] True (w\<lparr>cwd := repo_path self\<rparr>) = (r2, w2)"
    by (metis surj_pair)
  obtain r3 w3 where a3: "subprocess_run E [''git'', ''add'', ''.gitignore''] True w2 = (r3, w3)"
    by (metis surj_pair)
  obtain r4 w4 where a4: "subprocess_run E [''git'', ''commit'', ''-m'', commit_message (length (processed_files self))] True w3 = (r4, w4)"
    by (metis surj_pair)
  obtain r5 w5 where a5: "subprocess_run E [''git'', ''push''] False w4 = (r5, w5)"
    by (metis surj_pair)
  note e2 = subprocess_run_effect[OF a2] and e3 = subprocess_run_effect[OF a3]
    and e4 = subprocess_run_effect[OF a4] and e5 = subprocess_run_effect[OF a5]
  from assms True a2 a3 a4 a5 e2 e3 e4 e5 show ?thesis
    by (auto simp: git_try_def os_chdir_def attempted_def publish_plan_def
             split: sum.splits if_splits)
qed

lemma git_commit_and_push_procs:
  assumes "git_commit_and_push E (self, w) = (r, self', w')"
  shows "procs w' = procs w @ attempted E self w"
proof -
  obtain r1 w1 where g: "git_try E self (py_print MsgUploading w) = (r1, w1)"
    by (metis surj_pair)
  have "(py_print MsgUploading w)\<lparr>cwd := repo_path self\<rparr>
        = (w\<lparr>cwd := repo_path self\<rparr>)\<lparr>out := out w @ [MsgUploading]\<rparr>"
    by (simp add: py_print_def)
  then have "run_each E cs ((py_print MsgUploading w)\<lparr>cwd := repo_path self\<rparr>)
        = run_each E cs (w\<lparr>cwd := repo_path self\<rparr>)" for cs
    by (simp only: run_each_out)
  then have "attempted E self (py_print MsgUploading w) = attempted E self w"
    by (simp add: attempted_def)
  with git_try_procs[OF g] have "procs w1 = procs w @ attempted E self w" by simp
  with assms g show ?thesis
    by (auto simp: git_commit_and_push_def Let_def split: sum.splits)
qed

lemma git_commit_and_push_no_directory:
  assumes "git_commit_and_push E (self, w) = (r, self', w')"
      and "\<not> is_dir (files w) (repo_path self)"
  shows "r = Ret False \<and> procs w' = procs w \<and> cwd w' = cwd w"
  using assms
  by (auto simp: git_commit_and_push_def git_try_def os_chdir_def Let_def split: if_splits)

subsection \<open>process\_all\_images\<close>

lemma quiet_refl [simp]: "quiet w w"
  by (simp add: quiet_def)

lemma quiet_trans: "quiet w w1 \<Longrightarrow> quiet w1 w2 \<Longrightarrow> quiet w w2"
  by (auto simp: quiet_def)

lemma quiet_print: "m \<noteq> MsgUploading \<Longrightarrow> quiet w (py_print m w)"
  by (simp add: quiet_def)

lemma quiet_print_right: "quiet w w' \<Longrightarrow> m \<noteq> MsgUploading \<Longrightarrow> quiet w (py_print m w')"
  by (auto simp: quiet_def)

lemma quiet_files [simp]: "quiet w (w\<lparr>files := x\<rparr>)"
  by (simp add: quiet_def)

lemma Image_save_quiet: "Image_save E img p enc q opt w = (r, w') \<Longrightarrow> quiet w w'"
  by (auto simp: Image_save_def quiet_def split: if_splits sum.splits)

lemma optimize_size_quiet:
  "optimize_size E fn img item (self, w) = (r, self', w') \<Longrightarrow> quiet w w'"
proof -
  assume a: "optimize_size E fn img item (self, w) = (r, self', w')"
  obtain nm cfg where item: "item = (nm, cfg)" by (cases item)
  show ?thesis
  proof (cases r)
    case (Inl e)
    from optimize_size_Inl[OF a[unfolded item Inl]] show ?thesis
      by (auto simp: quiet_def)
  next
    case (Inr u)
    from optimize_size_Inr[OF a[unfolded item Inr]] show ?thesis
      by (auto simp: quiet_def)
  qed
qed

lemma optimize_sizes_quiet:
  "optimize_sizes E fn img items (self, w) = (r, self', w') \<Longrightarrow> quiet w w'"
proof (induction items arbitrary: self w)
  case Nil
  then show ?case by simp
next
  case (Cons item items)
  obtain r1 self1 w1 where step: "optimize_size E fn img item (self, w) = (r1, self1, w1)"
    by (metis prod_cases3)
  note q1 = optimize_size_quiet[OF step]
  show ?case
  proof (cases r1)
    case (Inl e)
    with Cons.prems step q1 show ?thesis by auto
  next
    case (Inr u)
    with Cons.prems step have "optimize_sizes E fn img items (self1, w1) = (r, self', w')" by auto
    from Cons.IH[OF this] q1 show ?thesis by (rule quiet_trans[rotated])
  qed
qed

lemma optimize_try_quiet:
  "optimize_try E p fn (self, w) = (r, self', w') \<Longrightarrow> quiet w w'"
  using optimize_try_cases[of E p fn self w r self' w'] optimize_sizes_quiet by auto

lemma optimize_image_quiet:
  assumes "optimize_image E p (self, w) = (r, self', w')"
  shows "quiet w w'"
proof (cases "os_path_getsize w p")
  case (Inl e)
  with assms show ?thesis by (auto simp: optimize_image_def Let_def)
next
  case (Inr sz)
  from optimize_image_cases[OF assms Inr] show ?thesis
  proof (elim disjE exE conjE)
    fix e w1
    assume t: "optimize_try E p (stem p) (self, py_print (MsgOptimizing (stem p) sz) w) = (Raise e, self', w1)"
      and w': "w' = py_print (MsgError e) w1"
    from optimize_try_quiet[OF t] have "quiet (py_print (MsgOptimizing (stem p) sz) w) w1" .
    then have "quiet w w1" by (rule quiet_trans[OF quiet_print, rotated]) simp
    then show ?thesis unfolding w' by (rule quiet_print_right) simp
  next
    fix u
    assume t: "optimize_try E p (stem p) (self, py_print (MsgOptimizing (stem p) sz) w) = (Ret u, self', w')"
    from optimize_try_quiet[OF t] show ?thesis
      by (rule quiet_trans[OF quiet_print, rotated]) simp
  qed
qed

lemma process_loop_quiet:
  "process_loop E ps c (self, w) = (r, self', w') \<Longrightarrow> quiet w w'"
proof (induction ps arbitrary: c self w)
  case Nil
  then show ?case by simp
next
  case (Cons p ps)
  obtain r1 self1 w1 where step: "optimize_image E p (self, w) = (r1, self1, w1)"
    by (metis prod_cases3)
  note q1 = optimize_image_quiet[OF step]
  show ?case
  proof (cases r1)
    case (Inl e)
    with Cons.prems step q1 show ?thesis by auto
  next
    case (Inr ok)
    with Cons.prems step
    have "process_loop E ps (if ok then c + 1 else c) (self1, w1) = (r, self', w')" by auto
    from Cons.IH[OF this] q1 show ?thesis by (rule quiet_trans[rotated])
  qed
qed

lemma process_loop_count:
  "process_loop E ps c s = (Ret n, s') \<Longrightarrow>
     n = c + length (filter (\<lambda>ok. ok) (outcomes E ps s)) \<and> length (outcomes E ps s) = length ps"
proof (induction ps arbitrary: c s)
  case Nil
  then show ?case by simp
next
  case (Cons p ps)
  obtain r1 s1 where step: "optimize_image E p s = (r1, s1)" by (metis surj_pair)
  with Cons.prems obtain ok where r1: "r1 = Ret ok" by (cases r1) auto
  with Cons.prems step
  have "process_loop E ps (if ok then c + 1 else c) s1 = (Ret n, s')" by auto
  from Cons.IH[OF this] step r1 show ?case by auto
qed

lemma glob_py_print [simp]: "glob_glob E (py_print m w) d pat = glob_glob E w d pat"
  by (simp add: glob_glob_def)

lemma process_all_images_cases:
  assumes "process_all_images E s = (r, s')"
  shows "(discovered E s = [] \<and> r = Ret False \<and> quiet (snd s) (snd s'))
       \<or> (discovered E s \<noteq> [] \<and> quiet (snd s) (snd s')
            \<and> ((\<exists>e. r = Raise e \<and> process_loop E (discovered E s) 0 (batch_start E s) = (Raise e, s'))
               \<or> r = Ret (0 < succeeded E s)))"
proof (cases "discovered E s = []")
  case True
  with assms show ?thesis
    by (auto simp: process_all_images_def discovered_def Let_def intro!: quiet_print_right quiet_print)
next
  case False
  obtain r1 self1 w1 where loop: "process_loop E (discovered E s) 0 (batch_start E s) = (r1, self1, w1)"
    by (metis prod_cases3)
  have q0: "quiet (snd s) (snd (batch_start E s))"
    by (auto simp: batch_start_def intro!: quiet_print_right quiet_print)
  from process_loop_quiet[of E "discovered E s" 0 "fst (batch_start E s)" "snd (batch_start E s)"] loop
  have q1: "quiet (snd (batch_start E s)) w1" by simp
  show ?thesis
  proof (cases r1)
    case (Inl e)
    with assms loop False have "r = Raise e" "s' = (self1, w1)"
      by (auto simp: process_all_images_def discovered_def batch_start_def Let_def)
    with False loop Inl quiet_trans[OF q0 q1] show ?thesis by auto
  next
    case (Inr n)
    with assms loop False have r: "r = Ret (0 < n)"
      and s': "s' = (self1, py_print (MsgProcessed n (length (discovered E s))) w1)"
      by (auto simp: process_all_images_def discovered_def batch_start_def Let_def)
    from process_loop_count[OF loop[unfolded Inr]] have "n = succeeded E s"
      by (simp add: succeeded_def)
    moreover have "quiet (snd s) (snd s')" unfolding s'
      using quiet_trans[OF q0 q1] by (auto intro: quiet_print_right)
    ultimately show ?thesis using False r by auto
  qed
qed

subsection \<open>run\_full\_optimization\<close>

lemma os_makedirs_quiet: "os_makedirs p w = (r, w') \<Longrightarrow> quiet w w'"
  by (auto simp: os_makedirs_def split: prod.splits)

lemma makedirs_each_quiet: "makedirs_each ps w = (r, w') \<Longrightarrow> quiet w w'"
proof (induction ps arbitrary: w)
  case Nil
  then show ?case by simp
next
  case (Cons p ps)
  obtain r1 w1 where step: "os_makedirs p w = (r1, w1)" by (metis surj_pair)
  note q1 = os_makedirs_quiet[OF step]
  show ?case
  proof (cases r1)
    case (Inl e)
    with Cons.prems step q1 show ?thesis by auto
  next
    case (Inr u)
    with Cons.prems step have "makedirs_each ps w1 = (r, w')" by auto
    from Cons.IH[OF this] q1 show ?thesis by (rule quiet_trans[rotated])
  qed
qed

lemma write_text_quiet: "write_text p s w = (r, w') \<Longrightarrow> quiet w w'"
  by (auto simp: write_text_def split: if_splits)

lemma setup_git_structure_quiet:
  assumes "setup_git_structure (self, w) = (r, self', w')"
  shows "quiet w w' \<and> self' = self"
proof -
  let ?w0 = "py_print MsgSetup w"
  obtain r1 w1 where a1: "os_makedirs (original_folder self) ?w0 = (r1, w1)" by (metis surj_pair)
  obtain r2 w2 where a2: "makedirs_each (map (\<lambda>size_name. optimized_folder self @ [size_name])
                     (map fst (sizes_config self))) w1 = (r2, w2)" by (metis surj_pair)
  obtain r3 w3 where a3: "write_text (repo_path self @ [''.gitignore'']) gitignore_content w2 = (r3, w3)"
    by (metis surj_pair)
  have q0: "quiet w ?w0" by (rule quiet_print) simp
  note q1 = quiet_trans[OF q0 os_makedirs_quiet[OF a1]]
  note q2 = quiet_trans[OF q1 makedirs_each_quiet[OF a2]]
  note q3 = quiet_trans[OF q2 write_text_quiet[OF a3]]
  have q4: "quiet w (py_print MsgSetupDone w3)" using q3 by (rule quiet_print_right) simp
  from assms a1 a2 a3 q1 q2 q3 q4 show ?thesis
    by (auto simp: setup_git_structure_def Let_def split: sum.splits)
qed

lemma os_rename_quiet: "os_rename E src dst w = (r, w') \<Longrightarrow> quiet w w'"
  by (auto simp: os_rename_def Let_def split: if_splits)

lemma move_each_quiet: "quiet w (move_each E self ps w)"
proof (induction ps arbitrary: w)
  case Nil
  then show ?case by simp
next
  case (Cons p ps)
  obtain r1 w1 where step: "os_rename E p (original_folder self @ [last p]) w = (r1, w1)"
    by (metis surj_pair)
  note q1 = os_rename_quiet[OF step]
  show ?case
  proof (cases r1)
    case (Inl e)
    have "quiet w (py_print (MsgMoveError (last p) e) w1)"
      using q1 by (rule quiet_print_right) simp
    from this Cons.IH[of "py_print (MsgMoveError (last p) e) w1"] show ?thesis
      using step Inl by (auto simp: Let_def intro: quiet_trans)
  next
    case (Inr u)
    have "quiet w (py_print (MsgMoved (last p)) w1)"
      using q1 by (rule quiet_print_right) simp
    from this Cons.IH[of "py_print (MsgMoved (last p)) w1"] show ?thesis
      using step Inr by (auto simp: Let_def intro: quiet_trans)
  qed
qed

lemma os_rmdir_quiet: "os_rmdir d w = (r, w') \<Longrightarrow> quiet w w'"
  by (auto simp: os_rmdir_def split: if_splits)

lemma move_existing_images_quiet:
  assumes "move_existing_images E (self, w) = (r, self', w')"
  shows "quiet w w' \<and> self' = self \<and> r = Ret ()"
proof (cases "os_path_exists w (repo_path self @ [''Anillos''])")
  case False
  with assms show ?thesis by (simp add: move_existing_images_def Let_def)
next
  case True
  let ?a = "repo_path self @ [''Anillos'']"
  let ?w0 = "py_print MsgMoving w"
  let ?w1 = "move_each E self (glob_glob E ?w0 ?a ''*.png'') ?w0"
  obtain r2 w2 where rm: "os_rmdir ?a ?w1 = (r2, w2)" by (metis surj_pair)
  have q0: "quiet w ?w0" by (rule quiet_print) simp
  have q1: "quiet w ?w1" by (rule quiet_trans[OF q0 move_each_quiet])
  have q2: "quiet w w2" by (rule quiet_trans[OF q1 os_rmdir_quiet[OF rm]])
  have q3: "quiet w (py_print MsgFolderRemoved w2)" using q2 by (rule quiet_print_right) simp
  from assms True rm q1 q2 q3 show ?thesis
    by (auto simp: move_existing_images_def Let_def split: sum.splits if_splits)
qed

lemma bootstrap_quiet:
  assumes "bootstrap E (self, w) = (r, self', w')"
  shows "quiet w w' \<and> self' = self"
proof -
  let ?w0 = "py_print (MsgBanner (repo_path self)) w"
  obtain r1 self1 w1 where a1: "setup_git_structure (self, ?w0) = (r1, self1, w1)"
    by (metis prod_cases3)
  have q0: "quiet w ?w0" by (rule quiet_print) simp
  from setup_git_structure_quiet[OF a1] have q1: "quiet w w1" and s1: "self1 = self"
    using quiet_trans[OF q0] by auto
  show ?thesis
  proof (cases r1)
    case (Inl e)
    with assms a1 q1 s1 show ?thesis by (simp add: bootstrap_def)
  next
    case (Inr u)
    with assms a1 have "move_existing_images E (self1, w1) = (r, self', w')"
      by (simp add: bootstrap_def)
    from move_existing_images_quiet[OF this] q1 s1 show ?thesis
      by (auto intro: quiet_trans)
  qed
qed

lemma git_commit_and_push_Ret:
  "git_commit_and_push E s = (r, s') \<Longrightarrow> r = Ret True \<or> r = Ret False"
  using git_commit_and_push_effect[of E "fst s" "snd s" r "fst s'" "snd s'"] by simp

lemma run_full_optimization_cases:
  assumes "run_full_optimization E s = (r, s')"
  shows "(\<exists>e. bootstrap E s = (Raise e, s') \<and> r = Raise e)
       \<or> (\<exists>u s2. bootstrap E s = (Ret u, s2)
            \<and> ((\<exists>e. process_all_images E s2 = (Raise e, s') \<and> r = Raise e)
               \<or> (\<exists>s3. process_all_images E s2 = (Ret False, s3) \<and> r = Ret ()
                      \<and> s' = (fst s3, py_print MsgNotProcessed (snd s3)))
               \<or> (\<exists>s3 pushed s4. process_all_images E s2 = (Ret True, s3)
                      \<and> git_commit_and_push E s3 = (Ret pushed, s4) \<and> r = Ret ()
                      \<and> s' = (fst s4, py_print MsgTotalTime (update_urls_info
                               (py_print (if pushed then MsgAllDone else MsgNotUploaded) (snd s4)))))))"
proof -
  obtain r2 s2 where b: "bootstrap E s = (r2, s2)" by (metis surj_pair)
  obtain r3 s3 where p: "process_all_images E s2 = (r3, s3)" by (metis surj_pair)
  obtain r4 s4 where g: "git_commit_and_push E s3 = (r4, s4)" by (metis surj_pair)
  from git_commit_and_push_Ret[OF g] obtain pushed where r4: "r4 = Ret pushed" by auto
  have mv: "fst (move_existing_images E x) = Ret ()" for x
    using move_existing_images_quiet[of E "fst x" "snd x"] by (metis prod.collapse)
  have unfold: "run_full_optimization E s =
     (case bootstrap E s of
        (Inl e, s2) \<Rightarrow> (Raise e, s2)
      | (Inr u, s2) \<Rightarrow>
         (case process_all_images E s2 of
            (Inl e, s3) \<Rightarrow> (Raise e, s3)
          | (Inr ok, s3) \<Rightarrow>
             if \<not> ok then (Ret (), fst s3, py_print MsgNotProcessed (snd s3))
             else (case git_commit_and_push E s3 of
                     (Inl e, s4) \<Rightarrow> (Raise e, s4)
                   | (Inr pushed, s4) \<Rightarrow>
                      (Ret (), fst s4, py_print MsgTotalTime (update_urls_info
                         (py_print (if pushed then MsgAllDone else MsgNotUploaded) (snd s4)))))))"
    by (auto simp: run_full_optimization_def bootstrap_def Let_def split: sum.splits prod.splits)
  show ?thesis
  proof (cases r2)
    case (Inl e)
    with assms b have "r = Raise e" "s' = s2" by (simp_all add: unfold)
    moreover from b Inl have "bootstrap E s = (Raise e, s2)" by simp
    ultimately show ?thesis by blast
  next
    case r2: (Inr u)
    show ?thesis
    proof (cases r3)
      case (Inl e)
      with assms b p r2 have "r = Raise e" "s' = s3" by (simp_all add: unfold)
      moreover from b p r2 Inl have "bootstrap E s = (Ret u, s2)"
        "process_all_images E s2 = (Raise e, s3)" by simp_all
      ultimately show ?thesis by blast
    next
      case r3: (Inr ok)
      show ?thesis
      proof (cases ok)
        case False
        with assms b p r2 r3 have "r = Ret ()" "s' = (fst s3, py_print MsgNotProcessed (snd s3))"
          by (simp_all add: unfold)
        moreover from b p r2 r3 False have "bootstrap E s = (Ret u, s2)"
          "process_all_images E s2 = (Ret False, s3)" by simp_all
        ultimately show ?thesis by blast
      next
        case True
        with assms b p g r2 r3 r4 have "r = Ret ()"
          "s' = (fst s4, py_print MsgTotalTime (update_urls_info
                  (py_print (if pushed then MsgAllDone else MsgNotUploaded) (snd s4))))"
          by (simp_all add: unfold)
        moreover from b p g r2 r3 r4 True have "bootstrap E s = (Ret u, s2)"
          "process_all_images E s2 = (Ret True, s3)" "git_commit_and_push E s3 = (Ret pushed, s4)"
          by simp_all
        ultimately show ?thesis by blast
      qed
    qed
  qed
qed

lemma run_full_optimization_bootstrap:
  "run_full_optimization E s =
     (case bootstrap E s of
        (Inl e, s2) \<Rightarrow> (Raise e, s2)
      | (Inr u, s2) \<Rightarrow>
         (case process_all_images E s2 of
            (Inl e, s3) \<Rightarrow> (Raise e, s3)
          | (Inr ok, s3) \<Rightarrow>
             if \<not> ok then (Ret (), fst s3, py_print MsgNotProcessed (snd s3))
             else (case git_commit_and_push E s3 of
                     (Inl e, s4) \<Rightarrow> (Raise e, s4)
                   | (Inr pushed, s4) \<Rightarrow>
                      (Ret (), fst s4, py_print MsgTotalTime (update_urls_info
                         (py_print (if pushed then MsgAllDone else MsgNotUploaded) (snd s4)))))))"
  by (auto simp: run_full_optimization_def bootstrap_def Let_def split: sum.splits prod.splits)

lemma process_loop_Raise:
  "process_loop E ps c (self, w) = (Raise e, s') \<Longrightarrow>
     \<exists>p \<in> set ps. \<exists>w1. os_path_getsize w1 p = Raise e"
proof (induction ps arbitrary: c self w)
  case Nil
  then show ?case by simp
next
  case (Cons p ps)
  obtain r1 self1 w1 where step: "optimize_image E p (self, w) = (r1, self1, w1)"
    by (metis prod_cases3)
  show ?case
  proof (cases r1)
    case (Inl e1)
    with Cons.prems step have "e1 = e" by auto
    with step Inl have "os_path_getsize w p = Raise e" by (simp add: optimize_image_Raise)
    then show ?thesis by auto
  next
    case (Inr ok)
    with Cons.prems step
    have "process_loop E ps (if ok then c + 1 else c) (self1, w1) = (Raise e, s')" by auto
    from Cons.IH[OF this] show ?thesis by auto
  qed
qed

lemma quiet_no_upload:
  "quiet w w' \<Longrightarrow>
     MsgUploading \<notin> set (drop (length (out w)) (out w')) \<and> procs w' = procs w \<and> cwd w' = cwd w"
  by (auto simp: quiet_def)

lemma quiet_out: "quiet w w' \<Longrightarrow> \<exists>ms. out w' = out w @ ms"
  by (auto simp: quiet_def)

lemma published_after_success:
  assumes run: "run_full_optimization E (self, w) = (r, self', w')"
      and b: "bootstrap E (self, w) = (Ret u, s2)"
      and p: "process_all_images E s2 = (Ret True, s3)"
  shows "MsgUploading \<in> set (drop (length (out w)) (out w'))"
proof -
  from run_full_optimization_cases[OF run] b p obtain pushed s4 where
    g: "git_commit_and_push E s3 = (Ret pushed, s4)"
    and s': "(self', w') = (fst s4, py_print MsgTotalTime (update_urls_info
                               (py_print (if pushed then MsgAllDone else MsgNotUploaded) (snd s4))))"
    by auto
  from bootstrap_quiet[of E self w "Ret u" "fst s2" "snd s2"] b have "quiet w (snd s2)" by simp
  moreover from process_all_images_cases[OF p] have "quiet (snd s2) (snd s3)" by auto
  ultimately have "quiet w (snd s3)" by (rule quiet_trans)
  then obtain ms where o3: "out (snd s3) = out w @ ms" using quiet_out by blast
  from git_commit_and_push_effect[of E "fst s3" "snd s3" "Ret pushed" "fst s4" "snd s4"] g
  obtain ms' where "out (snd s4) = out (snd s3) @ MsgUploading # ms'" by auto
  with o3 s' show ?thesis by (auto simp: update_urls_info_def)
qed

subsection \<open>The repository path stays a directory\<close>

text \<open>
  \<open>setup_git_structure\<close> creates the source directory below \<open>repo_path\<close>, so when it
  returns \<open>repo_path\<close> is a directory; nothing the script does afterwards removes or
  replaces it. So a publish that \<open>run_full_optimization\<close> reaches finds the directory and
  changes into it.
\<close>

lemma node_at_append:
  "node_at fs q = None \<Longrightarrow> node_at (fs @ [(q, Dir)]) p = (if p = q then Some Dir else node_at fs p)"
  by (auto simp: node_at_def map_add_def split: option.splits if_splits)

lemma makedirs_from_keeps:
  "makedirs_from b cs fs = (r, fs') \<Longrightarrow> is_dir fs p \<Longrightarrow> is_dir fs' p"
proof (induction cs arbitrary: b fs)
  case Nil
  then show ?case by simp
next
  case (Cons c cs)
  show ?case
  proof (cases "node_at fs (b @ [c])")
    case None
    with Cons.prems(1) have rec: "makedirs_from (b @ [c]) cs (fs @ [(b @ [c], Dir)]) = (r, fs')"
      by simp
    from Cons.prems(2) None have "is_dir (fs @ [(b @ [c], Dir)]) p"
      by (auto simp: is_dir_def node_at_append)
    from Cons.IH[OF rec this] show ?thesis .
  next
    case (Some n)
    with Cons.prems Cons.IH show ?thesis by (cases n) auto
  qed
qed

lemma makedirs_from_creates:
  "makedirs_from b cs fs = (Ret u, fs') \<Longrightarrow> 0 < k \<Longrightarrow> k \<le> length cs \<Longrightarrow>
     is_dir fs' (b @ take k cs)"
proof (induction cs arbitrary: b fs k)
  case Nil
  then show ?case by simp
next
  case (Cons c cs)
  obtain fs1 where fs1: "makedirs_from (b @ [c]) cs fs1 = (Ret u, fs')" and d: "is_dir fs1 (b @ [c])"
  proof (cases "node_at fs (b @ [c])")
    case None
    with Cons.prems(1) have "makedirs_from (b @ [c]) cs (fs @ [(b @ [c], Dir)]) = (Ret u, fs')"
      by simp
    moreover from None have "is_dir (fs @ [(b @ [c], Dir)]) (b @ [c])"
      by (simp add: is_dir_def node_at_append)
    ultimately show ?thesis by (rule that)
  next
    case (Some n)
    with Cons.prems(1) have "n = Dir" by (cases n) auto
    with Some Cons.prems(1) have "makedirs_from (b @ [c]) cs fs = (Ret u, fs')" by simp
    moreover from Some \<open>n = Dir\<close> have "is_dir fs (b @ [c])" by (simp add: is_dir_def)
    ultimately show ?thesis by (rule that)
  qed
  show ?case
  proof (cases k)
    case 0
    with Cons.prems show ?thesis by simp
  next
    case (Suc j)
    show ?thesis
    proof (cases "j = 0")
      case True
      with Suc makedirs_from_keeps[OF fs1 d] show ?thesis by simp
    next
      case False
      with Suc Cons.prems have "0 < j" "j \<le> length cs" by simp_all
      from Cons.IH[OF fs1 this] Suc show ?thesis by simp
    qed
  qed
qed

lemma os_makedirs_keeps:
  "os_makedirs d w = (r, w') \<Longrightarrow> is_dir (files w) p \<Longrightarrow> is_dir (files w') p"
  by (auto simp: os_makedirs_def split: prod.splits dest: makedirs_from_keeps)

lemma os_makedirs_creates:
  assumes "os_makedirs d w = (Ret u, w')" and "prefix rp d"
  shows "is_dir (files w') rp"
proof (cases "rp = []")
  case True
  then show ?thesis by (simp add: is_dir_def node_at_def)
next
  case False
  from assms(2) obtain xs where d: "d = rp @ xs" by (auto simp: prefix_def)
  from assms(1) obtain fs' where m: "makedirs_from [] d (files w) = (Ret u, fs')"
    and w': "files w' = fs'"
    by (auto simp: os_makedirs_def split: prod.splits)
  from makedirs_from_creates[OF m, of "length rp"] False w' d show ?thesis by simp
qed

lemma makedirs_each_keeps:
  "makedirs_each ps w = (r, w') \<Longrightarrow> is_dir (files w) p \<Longrightarrow> is_dir (files w') p"
proof (induction ps arbitrary: w)
  case Nil
  then show ?case by simp
next
  case (Cons d ps)
  obtain r1 w1 where step: "os_makedirs d w = (r1, w1)" by (metis surj_pair)
  note k1 = os_makedirs_keeps[OF step Cons.prems(2)]
  show ?case
  proof (cases r1)
    case (Inl e)
    with Cons.prems step k1 show ?thesis by auto
  next
    case (Inr u)
    with Cons.prems step have "makedirs_each ps w1 = (r, w')" by auto
    from Cons.IH[OF this k1] show ?thesis .
  qed
qed

lemma write_text_keeps:
  "write_text q s w = (r, w') \<Longrightarrow> q \<noteq> p \<Longrightarrow> is_dir (files w) p \<Longrightarrow> is_dir (files w') p"
  by (cases "p = []")
     (auto simp: write_text_def is_dir_def node_at_def update_conv' split: if_splits)

lemma map_of_move_entries:
  assumes "\<not> prefix src p" and "length p < length dst"
  shows "map_of (move_entries src dst fs) p = map_of fs p"
proof -
  have neq: "dst \<noteq> p" using assms(2) by auto
  have "map_of (map (\<lambda>(k, n). if prefix src k then (dst @ drop (length src) k, n) else (k, n)) xs) p
        = map_of xs p" for xs :: "(path \<times> node) list"
  proof (induction xs)
    case Nil
    then show ?case by simp
  next
    case (Cons x xs)
    obtain k n where x: "x = (k, n)" by (cases x)
    show ?case
    proof (cases "prefix src k")
      case True
      with assms(1) have "k \<noteq> p" by auto
      moreover have "dst @ drop (length src) k \<noteq> p" using assms(2) by auto
      ultimately show ?thesis using Cons x True by simp
    next
      case False
      with Cons x show ?thesis by simp
    qed
  qed
  then show ?thesis using neq by (simp add: move_entries_def delete_conv')
qed

lemma os_rename_keeps:
  "os_rename E src dst w = (r, w') \<Longrightarrow> \<not> prefix src p \<Longrightarrow> length p < length dst \<Longrightarrow>
     is_dir (files w) p \<Longrightarrow> is_dir (files w') p"
  by (cases "p = []")
     (auto simp: os_rename_def Let_def is_dir_def node_at_def map_of_move_entries
           split: if_splits)

lemma glob_glob_mem: "q \<in> set (glob_glob E w d pat) \<Longrightarrow> q \<noteq> [] \<and> butlast q = d"
  by (auto simp: glob_glob_def split: if_splits)

lemma move_each_keeps:
  assumes "\<forall>q \<in> set ps. \<not> prefix q p" and "length p \<le> length (original_folder self)"
  shows "is_dir (files w) p \<Longrightarrow> is_dir (files (move_each E self ps w)) p"
  using assms(1)
proof (induction ps arbitrary: w)
  case Nil
  then show ?case by simp
next
  case (Cons q ps)
  obtain r1 w1 where step: "os_rename E q (original_folder self @ [last q]) w = (r1, w1)"
    by (metis surj_pair)
  from Cons.prems have np: "\<not> prefix q p" and rest: "\<forall>q \<in> set ps. \<not> prefix q p" by simp_all
  from os_rename_keeps[OF step np _ Cons.prems(1)] assms(2) have k1: "is_dir (files w1) p" by simp
  show ?case
  proof (cases r1)
    case (Inl e)
    from k1 have "is_dir (files (py_print (MsgMoveError (last q) e) w1)) p" by simp
    from Cons.IH[OF this rest] show ?thesis
      using step Inl by (simp add: Let_def)
  next
    case (Inr u)
    from k1 have "is_dir (files (py_print (MsgMoved (last q)) w1)) p" by simp
    from Cons.IH[OF this rest] show ?thesis
      using step Inr by (simp add: Let_def)
  qed
qed

lemma os_rmdir_keeps:
  "os_rmdir d w = (r, w') \<Longrightarrow> d \<noteq> p \<Longrightarrow> is_dir (files w) p \<Longrightarrow> is_dir (files w') p"
  by (cases "p = []")
     (auto simp: os_rmdir_def is_dir_def node_at_def delete_conv' split: if_splits)

lemma setup_git_structure_directory:
  assumes run: "setup_git_structure (self, w) = (Ret u, self', w')"
      and pre: "prefix (repo_path self) (original_folder self)"
  shows "is_dir (files w') (repo_path self)"
proof -
  let ?w0 = "py_print MsgSetup w"
  obtain r1 w1 where a1: "os_makedirs (original_folder self) ?w0 = (r1, w1)" by (metis surj_pair)
  obtain r2 w2 where a2: "makedirs_each (map (\<lambda>size_name. optimized_folder self @ [size_name])
                     (map fst (sizes_config self))) w1 = (r2, w2)" by (metis surj_pair)
  obtain r3 w3 where a3: "write_text (repo_path self @ [''.gitignore'']) gitignore_content w2 = (r3, w3)"
    by (metis surj_pair)
  from run a1 a2 a3 obtain u1 where r1: "r1 = Ret u1"
    by (cases r1) (auto simp: setup_git_structure_def Let_def)
  from run a1 a2 a3 r1 obtain u2 where r2: "r2 = Ret u2"
    by (cases r2) (auto simp: setup_git_structure_def Let_def)
  from run a1 a2 a3 r1 r2 obtain u3 where r3: "r3 = Ret u3"
    by (cases r3) (auto simp: setup_git_structure_def Let_def)
  from run a1 a2 a3 r1 r2 r3 have w': "w' = py_print MsgSetupDone w3"
    by (auto simp: setup_git_structure_def Let_def)
  from os_makedirs_creates[OF a1[unfolded r1] pre] have "is_dir (files w1) (repo_path self)" .
  from makedirs_each_keeps[OF a2 this] have "is_dir (files w2) (repo_path self)" .
  from write_text_keeps[OF a3 _ this] have "is_dir (files w3) (repo_path self)" by simp
  with w' show ?thesis by simp
qed

lemma move_existing_images_keeps:
  assumes run: "move_existing_images E (self, w) = (r, self', w')"
      and pre: "prefix (repo_path self) (original_folder self)"
      and d: "is_dir (files w) (repo_path self)"
  shows "is_dir (files w') (repo_path self)"
proof (cases "os_path_exists w (repo_path self @ [''Anillos''])")
  case False
  with run d show ?thesis by (simp add: move_existing_images_def Let_def)
next
  case True
  let ?a = "repo_path self @ [''Anillos'']"
  let ?w0 = "py_print MsgMoving w"
  let ?w1 = "move_each E self (glob_glob E ?w0 ?a ''*.png'') ?w0"
  obtain r2 w2 where rm: "os_rmdir ?a ?w1 = (r2, w2)" by (metis surj_pair)
  have np: "\<forall>q \<in> set (glob_glob E ?w0 ?a ''*.png''). \<not> prefix q (repo_path self)"
  proof
    fix q assume "q \<in> set (glob_glob E ?w0 ?a ''*.png'')"
    from glob_glob_mem[OF this] have "q \<noteq> []" "butlast q = ?a" by simp_all
    then have "length q = length (repo_path self) + 2"
      by (metis One_nat_def Suc_eq_plus1 add_2_eq_Suc' length_append_singleton length_butlast
            length_greater_0_conv Suc_pred)
    then show "\<not> prefix q (repo_path self)" by (auto dest: prefix_length_le)
  qed
  from pre have len: "length (repo_path self) \<le> length (original_folder self)"
    by (rule prefix_length_le)
  from d have "is_dir (files ?w0) (repo_path self)" by simp
  from move_each_keeps[OF np len this] have k1: "is_dir (files ?w1) (repo_path self)" .
  from os_rmdir_keeps[OF rm _ k1] have k2: "is_dir (files w2) (repo_path self)" by simp
  from run True rm k1 k2 show ?thesis
    by (auto simp: move_existing_images_def Let_def split: sum.splits if_splits)
qed

lemma bootstrap_directory:
  assumes run: "bootstrap E (self, w) = (Ret u, self', w')"
      and pre: "prefix (repo_path self) (original_folder self)"
  shows "is_dir (files w') (repo_path self) \<and> self' = self"
proof -
  let ?w0 = "py_print (MsgBanner (repo_path self)) w"
  obtain r1 self1 w1 where a1: "setup_git_structure (self, ?w0) = (r1, self1, w1)"
    by (metis prod_cases3)
  from setup_git_structure_quiet[OF a1] have s1: "self1 = self" by simp
  from run a1 obtain u1 where r1: "r1 = Ret u1" by (cases r1) (auto simp: bootstrap_def)
  from run a1 r1 s1 have m: "move_existing_images E (self, w1) = (Ret u, self', w')"
    by (simp add: bootstrap_def)
  from setup_git_structure_directory[OF a1[unfolded r1] pre]
  have "is_dir (files w1) (repo_path self)" .
  from move_existing_images_keeps[OF m pre this] move_existing_images_quiet[OF m]
  show ?thesis by simp
qed

lemma wrote_keeps:
  assumes "wrote w w' ws" and "p \<notin> set ws" and "is_dir (files w) p"
  shows "is_dir (files w') p"
  using assms by (cases "p = []") (auto simp: wrote_def is_dir_def node_at_def)

lemma planned_longer:
  "q \<in> set (planned R fn items) \<Longrightarrow> length q = length R + 2"
  by (auto simp: planned_mem artifact_path_def)

lemma optimize_image_keeps:
  assumes run: "optimize_image E p (self, w) = (r, self', w')"
      and pre: "prefix rp (optimized_folder self)"
      and d: "is_dir (files w) rp"
  shows "is_dir (files w') rp \<and> repo_path self' = repo_path self
       \<and> optimized_folder self' = optimized_folder self"
proof (cases "os_path_getsize w p")
  case (Inl e)
  with run d show ?thesis by (auto simp: optimize_image_def Let_def)
next
  case (Inr sz)
  let ?R = "optimized_folder self"
  from optimize_image_progress[OF run Inr] obtain k extra where
    k: "k \<le> length (sizes_config self)"
    and s': "self' = self\<lparr>processed_files := processed_files self
                   @ planned ?R (stem p) (take k (sizes_config self))\<rparr>"
    and wr: "wrote w w' (planned ?R (stem p) (take k (sizes_config self)) @ extra)"
    and ex: "extra = [] \<or> (k < length (sizes_config self) \<and> extra =
                   [artifact_path ?R (fst (sizes_config self ! k)) (stem p) WEBP])"
    by blast
  from pre have len: "length rp \<le> length ?R" by (rule prefix_length_le)
  have "rp \<notin> set (planned ?R (stem p) (take k (sizes_config self)) @ extra)"
  proof
    assume "rp \<in> set (planned ?R (stem p) (take k (sizes_config self)) @ extra)"
    then have "length rp = length ?R + 2"
      using ex by (auto simp: artifact_path_def dest: planned_longer)
    with len show False by simp
  qed
  from wrote_keeps[OF wr this d] s' show ?thesis by simp
qed

lemma process_loop_keeps:
  assumes "process_loop E ps c (self, w) = (r, self', w')"
      and "prefix rp (optimized_folder self)" and "is_dir (files w) rp"
  shows "is_dir (files w') rp \<and> repo_path self' = repo_path self"
  using assms
proof (induction ps arbitrary: c self w)
  case Nil
  then show ?case by simp
next
  case (Cons p ps)
  obtain r1 self1 w1 where step: "optimize_image E p (self, w) = (r1, self1, w1)"
    by (metis prod_cases3)
  from optimize_image_keeps[OF step Cons.prems(2,3)]
  have k1: "is_dir (files w1) rp" and rp1: "repo_path self1 = repo_path self"
    and of1: "optimized_folder self1 = optimized_folder self" by simp_all
  show ?case
  proof (cases r1)
    case (Inl e)
    with Cons.prems(1) step k1 rp1 show ?thesis by auto
  next
    case (Inr ok)
    with Cons.prems(1) step
    have "process_loop E ps (if ok then c + 1 else c) (self1, w1) = (r, self', w')" by simp
    from Cons.IH[OF this] Cons.prems(2) of1 k1 rp1 show ?thesis by simp
  qed
qed

lemma process_all_images_keeps:
  assumes run: "process_all_images E (self, w) = (r, self', w')"
      and pre: "prefix rp (optimized_folder self)" and d: "is_dir (files w) rp"
  shows "is_dir (files w') rp \<and> repo_path self' = repo_path self"
proof -
  let ?w0 = "py_print MsgProcessing w"
  let ?fs = "glob_glob E ?w0 (original_folder self) ''*.png''"
  show ?thesis
  proof (cases "?fs = []")
    case True
    with run d show ?thesis by (auto simp: process_all_images_def Let_def)
  next
    case False
    obtain r1 self1 w1 where
      loop: "process_loop E ?fs 0 (self, py_print (MsgFound (length ?fs)) ?w0) = (r1, self1, w1)"
      by (metis prod_cases3)
    from d have "is_dir (files (py_print (MsgFound (length ?fs)) ?w0)) rp" by simp
    from process_loop_keeps[OF loop pre this]
    have "is_dir (files w1) rp" "repo_path self1 = repo_path self" by simp_all
    with run False loop show ?thesis
      by (auto simp: process_all_images_def Let_def split: sum.splits)
  qed
qed

lemma publish_reached_in_directory:
  assumes b: "bootstrap E (GitImageOptimizer rp, w) = (Ret u, s2)"
      and p: "process_all_images E s2 = (r3, s3)"
  shows "repo_path (fst s3) = rp \<and> is_dir (files (snd s3)) (repo_path (fst s3))"
proof -
  let ?self = "GitImageOptimizer rp"
  have rp: "repo_path ?self = rp" and pre1: "prefix (repo_path ?self) (original_folder ?self)"
    and pre2: "prefix rp (optimized_folder ?self)"
    by (simp_all add: GitImageOptimizer_def Let_def)
  obtain self2 w2 where s2: "s2 = (self2, w2)" by (cases s2)
  obtain self3 w3 where s3: "s3 = (self3, w3)" by (cases s3)
  from bootstrap_directory[OF b[unfolded s2] pre1] rp
  have d2: "is_dir (files w2) rp" and self2: "self2 = ?self" by simp_all
  from process_all_images_keeps[OF p[unfolded s2 s3 self2] pre2 d2] rp s3
  show ?thesis by simp
qed

lemma run_publish_changes_directory:
  assumes run: "run_full_optimization E (GitImageOptimizer rp, w) = (r, self', w')"
      and pub: "MsgUploading \<in> set (drop (length (out w)) (out w'))
                \<or> procs w' \<noteq> procs w \<or> cwd w' \<noteq> cwd w"
  shows "cwd w' = rp"
proof -
  have no: False if "quiet w w'"
    using quiet_no_upload[OF that] pub by simp
  from run_full_optimization_cases[OF run] show ?thesis
  proof (elim disjE exE conjE)
    fix e
    assume "bootstrap E (GitImageOptimizer rp, w) = (Raise e, self', w')"
    from bootstrap_quiet[OF this] no show ?thesis by simp
  next
    fix u s2 e
    assume b: "bootstrap E (GitImageOptimizer rp, w) = (Ret u, s2)"
      and p: "process_all_images E s2 = (Raise e, self', w')"
    from bootstrap_quiet[of E "GitImageOptimizer rp" w "Ret u" "fst s2" "snd s2"] b
    have "quiet w (snd s2)" by simp
    moreover from process_all_images_cases[OF p] have "quiet (snd s2) w'" by auto
    ultimately have "quiet w w'" by (rule quiet_trans)
    with no show ?thesis by simp
  next
    fix u s2 s3
    assume b: "bootstrap E (GitImageOptimizer rp, w) = (Ret u, s2)"
      and p: "process_all_images E s2 = (Ret False, s3)"
      and s': "(self', w') = (fst s3, py_print MsgNotProcessed (snd s3))"
    from bootstrap_quiet[of E "GitImageOptimizer rp" w "Ret u" "fst s2" "snd s2"] b
    have "quiet w (snd s2)" by simp
    moreover from process_all_images_cases[OF p] have "quiet (snd s2) (snd s3)" by auto
    ultimately have "quiet w (snd s3)" by (rule quiet_trans)
    then have "quiet w (py_print MsgNotProcessed (snd s3))" by (rule quiet_print_right) simp
    with s' no show ?thesis by simp
  next
    fix u s2 s3 pushed s4
    assume b: "bootstrap E (GitImageOptimizer rp, w) = (Ret u, s2)"
      and p: "process_all_images E s2 = (Ret True, s3)"
      and g: "git_commit_and_push E s3 = (Ret pushed, s4)"
      and s': "(self', w') = (fst s4, py_print MsgTotalTime (update_urls_info
                 (py_print (if pushed then MsgAllDone else MsgNotUploaded) (snd s4))))"
    from publish_reached_in_directory[OF b p]
    have rp: "repo_path (fst s3) = rp" and d: "is_dir (files (snd s3)) (repo_path (fst s3))"
      by blast+
    from git_commit_and_push_effect[of E "fst s3" "snd s3" "Ret pushed" "fst s4" "snd s4"] g d rp
    have "cwd (snd s4) = rp" by simp
    with s' show ?thesis by (simp add: update_urls_info_def)
  qed
qed

subsection \<open>The concrete libraries keep the resizer's contract\<close>

lemma floor_scale:
  fixes a b c :: nat
  assumes "0 < c"
  shows "\<bar>int (max 1 (a * b div c)) * int c - int b * int a\<bar> \<le> int c"
proof -
  let ?d = "a * b div c"
  have le: "?d * c \<le> a * b" by (rule div_times_less_eq_dividend)
  have lt: "a * b < ?d * c + c"
    using assms by (metis dividend_less_div_times add.commute)
  show ?thesis
  proof (cases "?d = 0")
    case True
    then have "a * b < c" using lt by simp
    then have "int b * int a < int c" by (metis mult.commute of_nat_less_iff of_nat_mult)
    moreover have "0 \<le> int b * int a" by simp
    ultimately show ?thesis using True by simp
  next
    case False
    then have m: "max 1 ?d = ?d" by simp
    have "int ?d * int c \<le> int b * int a"
      using le by (metis mult.commute of_nat_le_iff of_nat_mult)
    moreover have "int b * int a < int ?d * int c + int c"
      using lt by (metis mult.commute of_nat_add of_nat_less_iff of_nat_mult)
    ultimately show ?thesis unfolding m by simp
  qed
qed

lemma demo_thumbnail_fits:
  assumes "0 < fst box" "0 < snd box" "demo_thumbnail img box rs = Ret r"
  shows "shrunk_to_fit (dims img) box (dims r)"
proof -
  obtain x y where box: "box = (x, y)" by (cases box)
  let ?w = "width img" and ?h = "height img"
  from assms box have x: "0 < x" and y: "0 < y" by simp_all
  consider (fit) "?w \<le> x \<and> ?h \<le> y"
    | (a) "\<not> (?w \<le> x \<and> ?h \<le> y)" "?h \<noteq> 0" "?w * y \<le> x * ?h"
    | (b) "\<not> (?w \<le> x \<and> ?h \<le> y)" "?h \<noteq> 0" "\<not> ?w * y \<le> x * ?h"
    | (z) "\<not> (?w \<le> x \<and> ?h \<le> y)" "?h = 0"
    by blast
  then show ?thesis
  proof cases
    case fit
    with assms(3) box have "r = img" by (simp add: demo_thumbnail_def)
    with fit box show ?thesis by (simp add: shrunk_to_fit_def dims_def)
  next
    case a
    with assms(3) box y have r: "r = img\<lparr>width := max 1 (?w * y div ?h), height := y\<rparr>"
      by (simp add: demo_thumbnail_def Let_def)
    have "?w * y div ?h \<le> x * ?h div ?h" using a(3) by (rule div_le_mono)
    then have w: "?w * y div ?h \<le> x" using a(2) by simp
    have asp: "\<bar>int (max 1 (?w * y div ?h)) * int ?h - int y * int ?w\<bar> \<le> int ?h"
      using a(2) by (intro floor_scale) simp
    have "int ?h \<le> int (max ?w ?h)" by simp
    with asp have asp': "\<bar>int (max 1 (?w * y div ?h)) * int ?h - int y * int ?w\<bar> \<le> int (max ?w ?h)"
      by (rule order_trans)
    have wx: "max 1 (?w * y div ?h) \<le> x" using w x by simp
    from wx a(1) asp' show ?thesis
      by (auto simp: r box shrunk_to_fit_def dims_def)
  next
    case b
    then have wpos: "0 < ?w" by (cases "?w = 0") simp_all
    from b assms(3) box y have r: "r = img\<lparr>width := x, height := max 1 (?h * x div ?w)\<rparr>"
      by (auto simp: demo_thumbnail_def Let_def split: if_splits)
    from b(3) have "?h * x \<le> ?w * y" by (simp add: mult.commute)
    then have "?h * x div ?w \<le> ?w * y div ?w" by (rule div_le_mono)
    then have h: "?h * x div ?w \<le> y" using wpos by simp
    have "\<bar>int (max 1 (?h * x div ?w)) * int ?w - int x * int ?h\<bar> \<le> int ?w"
      using wpos by (intro floor_scale)
    then have asp: "\<bar>int x * int ?h - int (max 1 (?h * x div ?w)) * int ?w\<bar> \<le> int ?w"
      by (simp add: abs_minus_commute)
    have "int ?w \<le> int (max ?w ?h)" by simp
    with asp have asp': "\<bar>int x * int ?h - int (max 1 (?h * x div ?w)) * int ?w\<bar> \<le> int (max ?w ?h)"
      by (rule order_trans)
    have hy: "max 1 (?h * x div ?w) \<le> y" using h y by simp
    from hy b(1) asp' show ?thesis
      by (auto simp: r box shrunk_to_fit_def dims_def)
  next
    case z
    with assms(3) box show ?thesis by (simp add: demo_thumbnail_def Let_def)
  qed
qed

lemma demo_contract: "codec_contract demo_env"
  unfolding codec_contract_def
proof (intro conjI allI impI)
  fix img box rs r
  assume "0 < fst box \<and> 0 < snd box \<and> thumbnail demo_env img box rs = Ret r"
  then show "shrunk_to_fit (dims img) box (dims r)"
    using demo_thumbnail_fits[of box img rs r] by (simp add: demo_env_def)
next
  fix img m r
  assume "convert demo_env img m = Ret r"
  then show "dims r = dims img" by (auto simp: demo_env_def dims_def)
qed


subsection \<open>The concrete run\<close>

lemma demo_stem: "stem demo_src = ''a1''"
  by (simp add: demo_src_def stem_def stem_of_name_def)

lemma demo_run_ok:
  "fst (optimize_image demo_env demo_src (demo_self, demo_world)) = Ret True"
  by (simp add: demo_stem optimize_image_def optimize_try_def to_rgb_def Image_open_def
        optimize_size_def Image_save_def is_dir_def node_at_def demo_world_def demo_dirs_def
        demo_src_def main_repo_path_def demo_env_def demo_self_def GitImageOptimizer_def
        demo_thumbnail_def os_path_getsize_def py_print_def Let_def)

lemma stem_Cons: "stem (x # y # ys) = stem (y # ys)" "stem [n] = stem_of_name n"
  by (simp_all add: stem_def)

lemma stem_a1: "stem_of_name ''a1.png'' = ''a1''"
  by (simp add: stem_of_name_def)

lemmas demo_eval =
  stem_Cons stem_a1 optimize_image_def optimize_try_def to_rgb_def Image_open_def
  optimize_size_def Image_save_def is_dir_def node_at_def demo_world_def demo_dirs_def
  demo_src_def main_repo_path_def demo_env_def demo_self_def GitImageOptimizer_def
  demo_thumbnail_def os_path_getsize_def py_print_def Let_def artifact_path_def ext_def

lemma faulty_saved:
  "saved (snd (snd (optimize_image faulty_env demo_src (demo_self, demo_world))))
   = [artifact_path (optimized_folder demo_self) ''thumb'' ''a1'' WEBP,
      artifact_path (optimized_folder demo_self) ''thumb'' ''a1'' JPEG,
      artifact_path (optimized_folder demo_self) ''medium'' ''a1'' WEBP]"
  by (simp add: demo_eval faulty_env_def)

lemma demo_getsize: "os_path_getsize demo_world demo_src = Ret 5000000"
  by (simp add: demo_eval)

lemma demo_run:
  obtains self' w' where
    "optimize_image demo_env demo_src (demo_self, demo_world) = (Ret True, self', w')"
    "saved w' = planned (optimized_folder demo_self) ''a1'' (sizes_config demo_self)"
proof -
  obtain self' w' where run: "optimize_image demo_env demo_src (demo_self, demo_world) = (Ret True, self', w')"
    using demo_run_ok by (metis prod.collapse)
  from optimize_image_progress[OF run demo_getsize]
  have "wrote demo_world w' (planned (optimized_folder demo_self) (stem demo_src) (sizes_config demo_self))"
    by auto
  then have "saved w' = planned (optimized_folder demo_self) ''a1'' (sizes_config demo_self)"
    by (simp add: wrote_def demo_stem demo_world_def)
  with run show ?thesis by (rule that)
qed

lemma demo_open:
  "Image_open demo_env demo_world demo_src = Ret \<lparr>mode = ''RGBA'', width = 2000, height = 1000\<rparr>"
  by (simp add: demo_eval)

lemma demo_catalog: "distinct (map fst (sizes_config demo_self))"
  by (simp add: demo_self_def GitImageOptimizer_def)

lemma demo_thumb:
  "(nm, cfg) \<in> set (sizes_config demo_self) \<Longrightarrow> nm = ''thumb'' \<Longrightarrow>
   cfg = \<lparr>size_wh = (300, 300), quality = 70\<rparr>"
  by (auto simp: demo_self_def GitImageOptimizer_def)

lemma demo_positive:
  "\<forall>item \<in> set (sizes_config demo_self).
     0 < fst (size_wh (snd item)) \<and> 0 < snd (size_wh (snd item))"
  by (simp add: demo_self_def GitImageOptimizer_def)

lemma demo_dir: "is_dir (files demo_world) main_repo_path"
  by (simp add: is_dir_def node_at_def demo_world_def demo_dirs_def main_repo_path_def)

lemma done_fields:
  "repo_path demo_done = main_repo_path" "length (processed_files demo_done) = 6"
  by (simp_all add: demo_done_def demo_self_def GitImageOptimizer_def planned_def)

lemma demo_publish_any:
  "is_dir (files w) (repo_path self) \<Longrightarrow>
   git_commit_and_push demo_env (self, w)
   = (Ret True, self,
      w\<lparr>cwd := repo_path self,
         procs := procs w @ publish_commands (length (processed_files self)),
         out := out w @ [MsgUploading, MsgPushed]\<rparr>)"
  by (simp add: git_commit_and_push_def git_try_def os_chdir_def subprocess_run_def
        py_print_def Let_def demo_env_def publish_commands_def)

lemma offline_publish_any:
  "is_dir (files w) (repo_path self) \<Longrightarrow>
   git_commit_and_push offline_env (self, w)
   = (Ret False, self,
      w\<lparr>cwd := repo_path self,
         procs := procs w @ publish_commands (length (processed_files self)),
         out := out w @ [MsgUploading, MsgPushError ''fatal: unable to access'']\<rparr>)"
  by (simp add: git_commit_and_push_def git_try_def os_chdir_def subprocess_run_def
        py_print_def Let_def demo_env_def offline_env_def publish_commands_def)

lemma unchanged_publish_any:
  "is_dir (files w) (repo_path self) \<Longrightarrow>
   git_commit_and_push unchanged_env (self, w)
   = (Ret False, self,
      w\<lparr>cwd := repo_path self,
         procs := procs w @ take 3 (publish_commands (length (processed_files self))),
         out := out w @ [MsgUploading,
                  MsgGitError (CalledProcessError
                     [''git'', ''commit'', ''-m'',
                      commit_message (length (processed_files self))] 1)]\<rparr>)"
  by (simp add: git_commit_and_push_def git_try_def os_chdir_def subprocess_run_def
        py_print_def Let_def demo_env_def unchanged_env_def publish_commands_def)

lemma world_fields:
  "procs demo_world = []" "out demo_world = []" "cwd demo_world = [''C:'']"
  "saved demo_world = []"
  by (simp_all add: demo_world_def)

lemma demo_publish:
  "git_commit_and_push demo_env (demo_done, demo_world)
   = (Ret True, demo_done,
      demo_world\<lparr>cwd := main_repo_path, procs := publish_commands 6,
                  out := [MsgUploading, MsgPushed]\<rparr>)"
  using demo_dir by (simp add: demo_publish_any done_fields world_fields)

lemma offline_publish:
  "git_commit_and_push offline_env (demo_done, demo_world)
   = (Ret False, demo_done,
      demo_world\<lparr>cwd := main_repo_path, procs := publish_commands 6,
                  out := [MsgUploading, MsgPushError ''fatal: unable to access'']\<rparr>)"
  using demo_dir by (simp add: offline_publish_any done_fields world_fields)

lemma unchanged_publish:
  "git_commit_and_push unchanged_env (demo_done, demo_world)
   = (Ret False, demo_done,
      demo_world\<lparr>cwd := main_repo_path, procs := take 3 (publish_commands 6),
                  out := [MsgUploading,
                          MsgGitError (CalledProcessError
                            [''git'', ''commit'', ''-m'', commit_message 6] 1)]\<rparr>)"
  using demo_dir by (simp add: unchanged_publish_any done_fields world_fields)

lemma attempted_unchanged:
  "is_dir (files w) (repo_path self) \<Longrightarrow>
   attempted unchanged_env self w = take 3 (publish_commands (length (processed_files self)))"
  by (simp add: attempted_def publish_plan_def subprocess_run_def Let_def
        demo_env_def unchanged_env_def publish_commands_def)

lemma lost_publish:
  "git_commit_and_push demo_env (demo_done, lost_world)
   = (Ret False, demo_done,
      lost_world\<lparr>out := [MsgUploading, MsgUnexpected FileNotFoundError]\<rparr>)"
  by (simp add: git_commit_and_push_def git_try_def os_chdir_def is_dir_def node_at_def
        py_print_def Let_def lost_world_def main_repo_path_def done_fields)



lemma stem_a0: "stem_of_name ''a0.png'' = ''a0''"
  by (simp add: stem_of_name_def)

lemmas boot_eval =
  bootstrap_def setup_git_structure_def os_makedirs_def write_text_def move_existing_images_def
  os_path_exists_def is_dir_def node_at_def py_print_def Let_def demo_dirs_def
  main_repo_path_def demo_self_def GitImageOptimizer_def

lemma boot_empty':
  "bootstrap demo_env (demo_self, empty_world)
   = (Ret (), demo_self,
      empty_world\<lparr>files := demo_dirs @ [gitignore_entry],
                   out := [MsgBanner main_repo_path, MsgSetup, MsgSetupDone]\<rparr>)"
  by (simp add: boot_eval empty_world_def gitignore_entry_def)

lemma boot_broken:
  "bootstrap demo_env (demo_self, broken_world)
   = (Ret (), demo_self,
      broken_world\<lparr>files := files broken_world @ [gitignore_entry],
                    out := [MsgBanner main_repo_path, MsgSetup, MsgSetupDone]\<rparr>)"
  by (simp add: boot_eval broken_world_def gitignore_entry_def broken_src_def demo_src_def)

lemma boot_demo:
  "bootstrap offline_env (demo_self, demo_world)
   = (Ret (), demo_self,
      demo_world\<lparr>files := files demo_world @ [gitignore_entry],
                  out := [MsgBanner main_repo_path, MsgSetup, MsgSetupDone]\<rparr>)"
  by (simp add: boot_eval demo_world_def gitignore_entry_def demo_src_def)

lemmas batch_eval =
  process_all_images_def glob_glob_def demo_eval gitignore_entry_def offline_env_def

lemma batch_empty:
  "process_all_images demo_env
     (demo_self, empty_world\<lparr>files := demo_dirs @ [gitignore_entry],
                   out := [MsgBanner main_repo_path, MsgSetup, MsgSetupDone]\<rparr>)
   = (Ret False, demo_self,
      empty_world\<lparr>files := demo_dirs @ [gitignore_entry],
                   out := [MsgBanner main_repo_path, MsgSetup, MsgSetupDone,
                           MsgProcessing, MsgNoImages]\<rparr>)"
  by (simp add: batch_eval empty_world_def)

lemma batch_broken:
  "process_all_images demo_env (demo_self, broken_world)
   = (Raise FileNotFoundError, demo_self, broken_world\<lparr>out := [MsgProcessing, MsgFound 2]\<rparr>)"
  by (simp add: batch_eval broken_world_def broken_src_def)

lemma batch_broken_booted:
  "fst (process_all_images demo_env
     (demo_self, broken_world\<lparr>files := files broken_world @ [gitignore_entry],
                    out := [MsgBanner main_repo_path, MsgSetup, MsgSetupDone]\<rparr>))
   = Raise FileNotFoundError"
  by (simp add: batch_eval broken_world_def broken_src_def)

lemma batch_garbled:
  "fst (process_all_images demo_env (demo_self, garbled_world)) = Ret True"
  by (simp add: batch_eval garbled_world_def broken_src_def stem_a0)

lemma batch_demo:
  "fst (process_all_images offline_env
     (demo_self, demo_world\<lparr>files := files demo_world @ [gitignore_entry],
                  out := [MsgBanner main_repo_path, MsgSetup, MsgSetupDone]\<rparr>)) = Ret True"
  by (simp add: batch_eval)


lemma demo_self_fold: "GitImageOptimizer main_repo_path = demo_self"
  by (simp add: demo_self_def)

lemmas checks_eval = os_path_exists_def node_at_def demo_dirs_def main_repo_path_def

section \<open>The claims\<close>

text \<open>
  C1. Whenever \<open>optimize_image\<close> succeeds on a source, it has written exactly one file for
  every profile of the catalog and each of the two encodings, in generation order, and
  nothing else: \<open>|catalog| * 2\<close> files (six for the catalog of the script), each at
  \<open>optimized_folder/profile/stem.webp\<close> or \<open>.jpg\<close>, a path that depends on the stem, the
  profile and the encoding only, and each holds the encoding at the profile's quality. The
  same paths are appended to \<open>processed_files\<close>. The keys of \<open>sizes_config\<close>, a dict, are
  distinct.
\<close>

theorem optimize_image_artifacts:
  assumes "optimize_image E image_path (self, w) = (Ret True, self', w')"
      and "distinct (map fst (sizes_config self))"
  shows "saved w' = saved w @ planned (optimized_folder self) (stem image_path) (sizes_config self)
       \<and> processed_files self' = processed_files self
            @ planned (optimized_folder self) (stem image_path) (sizes_config self)
       \<and> length (planned (optimized_folder self) (stem image_path) (sizes_config self))
            = length (sizes_config self) * length [WEBP, JPEG]
       \<and> distinct (planned (optimized_folder self) (stem image_path) (sizes_config self))
       \<and> (\<forall>item \<in> set (sizes_config self). \<forall>enc \<in> set [WEBP, JPEG]. \<exists>n img.
             map_of (files w')
               (artifact_path (optimized_folder self) (fst item) (stem image_path) enc)
             = Some (File n (Encoded enc (quality (snd item)) True img)))
       \<and> (\<forall>q. q \<notin> set (planned (optimized_folder self) (stem image_path) (sizes_config self))
             \<longrightarrow> map_of (files w') q = map_of (files w) q)
       \<and> (sizes_config self = sizes_config (GitImageOptimizer rp)
             \<longrightarrow> length (planned (optimized_folder self) (stem image_path) (sizes_config self)) = 6)"
proof -
  let ?P = "planned (optimized_folder self) (stem image_path) (sizes_config self)"
  from optimize_image_Ret[OF assms(1)] obtain sz where sz: "os_path_getsize w image_path = Ret sz"
    by blast
  from optimize_image_progress[OF assms(1) sz] have
    s': "self' = self\<lparr>processed_files := processed_files self @ ?P\<rparr>"
    and wr: "wrote w w' ?P"
    by auto
  have contents: "\<exists>n img. map_of (files w')
               (artifact_path (optimized_folder self) (fst item) (stem image_path) enc)
             = Some (File n (Encoded enc (quality (snd item)) True img))"
    if item: "item \<in> set (sizes_config self)" and enc: "enc \<in> set [WEBP, JPEG]" for item enc
  proof -
    let ?q = "artifact_path (optimized_folder self) (fst item) (stem image_path) enc"
    from item enc have "?q \<in> set ?P" by (auto simp: planned_mem)
    from optimize_image_written[OF assms(1) assms(2) wr this]
    obtain nm cfg enc' r n where mem: "(nm, cfg) \<in> set (sizes_config self)"
      and q: "?q = artifact_path (optimized_folder self) nm (stem image_path) enc'"
      and f: "map_of (files w') ?q = Some (File n (Encoded enc' (quality cfg) True r))"
      by (auto simp: holds_artifact_def)
    from q have nm: "nm = fst item" and e: "enc' = enc" by (simp_all add: artifact_path_inj)
    from mem item nm assms(2) have "cfg = snd item"
      by (metis distinct_map eq_key_imp_eq_value prod.collapse)
    with f e show ?thesis by blast
  qed
  from s' wr contents show ?thesis
    by (auto simp: wrote_def length_planned distinct_planned[OF assms(2)] GitImageOptimizer_def)
qed

theorem optimize_image_artifacts_witness:
  "fst (optimize_image demo_env demo_src (demo_self, demo_world)) = Ret True
   \<and> distinct (map fst (sizes_config demo_self))
   \<and> saved (snd (snd (optimize_image demo_env demo_src (demo_self, demo_world))))
       = planned (optimized_folder demo_self) ''a1'' (sizes_config demo_self)
   \<and> length (saved (snd (snd (optimize_image demo_env demo_src (demo_self, demo_world))))) = 6"
proof -
  obtain self' w' where run: "optimize_image demo_env demo_src (demo_self, demo_world) = (Ret True, self', w')"
    using demo_run_ok by (metis prod.collapse)
  have d: "distinct (map fst (sizes_config demo_self))"
    by (simp add: demo_self_def GitImageOptimizer_def)
  have c: "sizes_config demo_self = sizes_config (GitImageOptimizer main_repo_path)"
    by (simp add: demo_self_def)
  from optimize_image_artifacts[OF run d, of main_repo_path] c run d show ?thesis
    by (simp add: demo_stem demo_world_def)
qed


text \<open>
  C2 does not hold of the code. \<open>os.path.getsize(image_path)\<close> stands before the \<open>try\<close> of
  \<open>optimize_image\<close>: for a source that cannot be read because it cannot be stat'ed (here
  the broken link \<open>a0.png\<close>, which \<open>Image.open\<close> would reject with the same error),
  \<open>optimize_image\<close> raises instead of returning \<open>False\<close>, and prints no reason. A source
  that fails inside the \<open>try\<close> is reported as the claim says: when \<open>a0.png\<close> is a file
  that cannot be decoded, \<open>optimize_image\<close> returns \<open>False\<close> and prints the decoder's
  error. (\<open>optimize_image_outcome\<close> below: for every source that can be stat'ed the claim
  holds.)
\<close>

theorem unreadable_source_reports_no_outcome:
  "Image_open demo_env broken_world broken_src = Raise FileNotFoundError
   \<and> optimize_image demo_env broken_src (demo_self, broken_world)
       = (Raise FileNotFoundError, demo_self, broken_world)
   \<and> optimize_image demo_env broken_src (demo_self, garbled_world)
       = (Ret False, demo_self,
          garbled_world\<lparr>out := [MsgOptimizing ''a0'' 17,
                                 MsgError (LibraryError ''cannot identify image file'')]\<rparr>)"
  by (simp add: demo_eval broken_world_def garbled_world_def broken_src_def stem_a0)

text \<open>
  For a source that can be stat'ed, \<open>optimize_image\<close> always returns a boolean. The files
  it has saved are an initial part of the planned artifacts, and it returns \<open>True\<close> exactly
  when that part is the whole plan, that is when every encode and write was completed. When
  it returns \<open>False\<close>, the exception that the \<open>try\<close> block raised is printed as the last
  line, the planned artifacts after the failure were not saved, every file saved before the
  failure is still a file (nothing is rolled back), and no entry other than the planned
  paths has changed.
\<close>

lemma optimize_image_outcome:
  assumes run: "optimize_image E image_path (self, w) = (r, self', w')"
      and sz: "os_path_getsize w image_path = Ret sz"
      and ne: "sizes_config self \<noteq> []"
  shows "\<exists>ws. saved w' = saved w @ ws
       \<and> prefix ws (planned (optimized_folder self) (stem image_path) (sizes_config self))
       \<and> r = Ret (ws = planned (optimized_folder self) (stem image_path) (sizes_config self))
       \<and> (\<forall>q \<in> set ws. is_file (files w') q)
       \<and> (\<forall>q. q \<notin> set (planned (optimized_folder self) (stem image_path) (sizes_config self))
             \<longrightarrow> map_of (files w') q = map_of (files w) q)
       \<and> (ws \<noteq> planned (optimized_folder self) (stem image_path) (sizes_config self) \<longrightarrow>
            (\<exists>e s1. optimize_try E image_path (stem image_path)
                       (self, py_print (MsgOptimizing (stem image_path) sz) w) = (Raise e, s1)
                   \<and> out w' = out (snd s1) @ [MsgError e]))"
proof -
  let ?R = "optimized_folder self"
  let ?items = "sizes_config self"
  let ?fn = "stem image_path"
  from optimize_image_progress[OF run sz] obtain k extra where
    k: "k \<le> length ?items"
    and wr: "wrote w w' (planned ?R ?fn (take k ?items) @ extra)"
    and c: "(r = Ret True \<and> k = length ?items \<and> extra = [])
          \<or> (r = Ret False
              \<and> (k < length ?items \<or> ?items = [])
              \<and> (extra = [] \<or> (k < length ?items \<and> extra =
                   [artifact_path ?R (fst (?items ! k)) ?fn WEBP]))
              \<and> (\<exists>e s1. optimize_try E image_path ?fn
                            (self, py_print (MsgOptimizing ?fn sz) w) = (Raise e, s1)
                        \<and> out w' = out (snd s1) @ [MsgError e]))"
    by blast
  let ?ws = "planned ?R ?fn (take k ?items) @ extra"
  from c show ?thesis
  proof
    assume a: "r = Ret True \<and> k = length ?items \<and> extra = []"
    with wr show ?thesis
      by (intro exI[of _ ?ws]) (auto simp: wrote_def)
  next
    assume a: "r = Ret False
              \<and> (k < length ?items \<or> ?items = [])
              \<and> (extra = [] \<or> (k < length ?items \<and> extra =
                   [artifact_path ?R (fst (?items ! k)) ?fn WEBP]))
              \<and> (\<exists>e s1. optimize_try E image_path ?fn
                            (self, py_print (MsgOptimizing ?fn sz) w) = (Raise e, s1)
                        \<and> out w' = out (snd s1) @ [MsgError e])"
    with ne have kk: "k < length ?items" by blast
    from a have ex: "extra = [] \<or> (k < length ?items \<and> extra =
                   [artifact_path ?R (fst (?items ! k)) ?fn WEBP])" by blast
    then have len: "length extra \<le> 1" by auto
    have pre: "prefix ?ws (planned ?R ?fn ?items)"
      by (rule planned_take_prefix[OF k ex])
    have neq: "?ws \<noteq> planned ?R ?fn ?items"
      by (rule planned_take_length[OF kk len])
    from pre have "set ?ws \<subseteq> set (planned ?R ?fn ?items)" by (rule set_mono_prefix)
    with wr have unch: "\<forall>q. q \<notin> set (planned ?R ?fn ?items)
             \<longrightarrow> map_of (files w') q = map_of (files w) q"
      unfolding wrote_def by blast
    from a wr pre neq unch show ?thesis
      by (intro exI[of _ ?ws]) (simp add: wrote_def)
  qed
qed


lemma optimize_image_outcome_example:
  "os_path_getsize demo_world demo_src = Ret 5000000
   \<and> sizes_config demo_self \<noteq> []
   \<and> fst (optimize_image faulty_env demo_src (demo_self, demo_world)) = Ret False
   \<and> saved (snd (snd (optimize_image faulty_env demo_src (demo_self, demo_world))))
       = [artifact_path (optimized_folder demo_self) ''thumb'' ''a1'' WEBP,
          artifact_path (optimized_folder demo_self) ''thumb'' ''a1'' JPEG,
          artifact_path (optimized_folder demo_self) ''medium'' ''a1'' WEBP]
   \<and> is_file (files (snd (snd (optimize_image faulty_env demo_src (demo_self, demo_world)))))
        (artifact_path (optimized_folder demo_self) ''medium'' ''a1'' WEBP)"
proof -
  obtain r self' w' where run: "optimize_image faulty_env demo_src (demo_self, demo_world) = (r, self', w')"
    by (metis prod_cases3)
  have ne: "sizes_config demo_self \<noteq> []" by (simp add: demo_self_def GitImageOptimizer_def)
  have sv: "saved w' = [artifact_path (optimized_folder demo_self) ''thumb'' ''a1'' WEBP,
      artifact_path (optimized_folder demo_self) ''thumb'' ''a1'' JPEG,
      artifact_path (optimized_folder demo_self) ''medium'' ''a1'' WEBP]"
    using faulty_saved run by simp
  have st: "stem demo_src = ''a1''" by (simp add: demo_src_def main_repo_path_def stem_Cons stem_a1)
  have s0: "saved demo_world = []" by (simp add: demo_world_def)
  from optimize_image_outcome[OF run demo_getsize ne] obtain ws where
    a: "saved w' = saved demo_world @ ws"
    and b: "r = Ret (ws = planned (optimized_folder demo_self) (stem demo_src) (sizes_config demo_self))"
    and c: "\<forall>q \<in> set ws. is_file (files w') q"
    by blast
  from a sv s0 have ws: "ws = [artifact_path (optimized_folder demo_self) ''thumb'' ''a1'' WEBP,
      artifact_path (optimized_folder demo_self) ''thumb'' ''a1'' JPEG,
      artifact_path (optimized_folder demo_self) ''medium'' ''a1'' WEBP]" by simp
  have "length ws \<noteq> length (planned (optimized_folder demo_self) (stem demo_src) (sizes_config demo_self))"
    by (simp add: ws length_planned demo_self_def GitImageOptimizer_def)
  then have "ws \<noteq> planned (optimized_folder demo_self) (stem demo_src) (sizes_config demo_self)"
    by auto
  with b have r: "r = Ret False" by simp
  from c ws have "is_file (files w') (artifact_path (optimized_folder demo_self) ''medium'' ''a1'' WEBP)"
    by simp
  with r sv run ne demo_getsize show ?thesis by simp
qed


text \<open>
  C7. Every file that \<open>optimize_image\<close> saves holds the encoding of an image that
  \<open>thumbnail\<close> made from the normalized source: when the mode of the decoded source is RGBA,
  LA or P, the image handed to \<open>thumbnail\<close> is the result of \<open>convert(..., 'RGB')\<close> on it, so
  the conversion comes before every resize; for every other mode, RGB among them, it is the
  decoded source itself and \<open>convert\<close> plays no part.
\<close>

theorem normalized_before_resize:
  assumes run: "optimize_image E image_path (self, w) = (r, self', w')"
      and dist: "distinct (map fst (sizes_config self))"
      and sv: "saved w' = saved w @ ws" and q: "q \<in> set ws"
  shows "\<exists>src img nm cfg enc resized n.
           Image_open E w image_path = Ret src
         \<and> (mode src \<in> {''RGBA'', ''LA'', ''P''} \<longrightarrow> convert E src ''RGB'' = Ret img)
         \<and> (mode src \<notin> {''RGBA'', ''LA'', ''P''} \<longrightarrow> img = src)
         \<and> (nm, cfg) \<in> set (sizes_config self)
         \<and> q = artifact_path (optimized_folder self) nm (stem image_path) enc
         \<and> thumbnail E img (size_wh cfg) LANCZOS = Ret resized
         \<and> map_of (files w') q = Some (File n (Encoded enc (quality cfg) True resized))"
proof -
  from saved_artifact[OF run dist sv q] obtain src img nm cfg enc resized n where
    opn: "Image_open E w image_path = Ret src" and rgb: "to_rgb E src = Ret img"
    and mem: "(nm, cfg) \<in> set (sizes_config self)"
    and qq: "q = artifact_path (optimized_folder self) nm (stem image_path) enc"
    and th: "thumbnail E img (size_wh cfg) LANCZOS = Ret resized"
    and f: "map_of (files w') q = Some (File n (Encoded enc (quality cfg) True resized))"
    by blast
  from rgb have c1: "mode src \<in> {''RGBA'', ''LA'', ''P''} \<longrightarrow> convert E src ''RGB'' = Ret img"
    and c2: "mode src \<notin> {''RGBA'', ''LA'', ''P''} \<longrightarrow> img = src"
    by (auto simp: to_rgb_def split: if_splits)
  from opn c1 c2 mem qq th f show ?thesis by blast
qed

theorem normalized_before_resize_witness:
  "distinct (map fst (sizes_config demo_self))
   \<and> artifact_path (optimized_folder demo_self) ''thumb'' ''a1'' WEBP
       \<in> set (saved (snd (snd (optimize_image demo_env demo_src (demo_self, demo_world)))))
   \<and> (\<exists>n. map_of (files (snd (snd (optimize_image demo_env demo_src (demo_self, demo_world)))))
             (artifact_path (optimized_folder demo_self) ''thumb'' ''a1'' WEBP)
           = Some (File n (Encoded WEBP 70 True \<lparr>mode = ''RGB'', width = 300, height = 150\<rparr>)))"
proof -
  let ?q = "artifact_path (optimized_folder demo_self) ''thumb'' ''a1'' WEBP"
  obtain self' w' where run: "optimize_image demo_env demo_src (demo_self, demo_world) = (Ret True, self', w')"
    and sv: "saved w' = planned (optimized_folder demo_self) ''a1'' (sizes_config demo_self)"
    by (rule demo_run)
  have sv': "saved w' = saved demo_world @ planned (optimized_folder demo_self) ''a1'' (sizes_config demo_self)"
    using sv by (simp add: demo_world_def)
  have q: "?q \<in> set (planned (optimized_folder demo_self) ''a1'' (sizes_config demo_self))"
    by (simp add: planned_def demo_self_def GitImageOptimizer_def)
  from normalized_before_resize[OF run demo_catalog sv' q]
  obtain src img nm cfg enc resized n where
    opn: "Image_open demo_env demo_world demo_src = Ret src"
    and c1: "mode src \<in> {''RGBA'', ''LA'', ''P''} \<longrightarrow> convert demo_env src ''RGB'' = Ret img"
    and mem: "(nm, cfg) \<in> set (sizes_config demo_self)"
    and qq: "?q = artifact_path (optimized_folder demo_self) nm (stem demo_src) enc"
    and th: "thumbnail demo_env img (size_wh cfg) LANCZOS = Ret resized"
    and f: "map_of (files w') ?q = Some (File n (Encoded enc (quality cfg) True resized))"
    by blast
  from qq have nm: "nm = ''thumb''" and enc: "enc = WEBP"
    by (simp_all add: demo_stem artifact_path_inj)
  from demo_thumb[OF mem nm] have cfg: "cfg = \<lparr>size_wh = (300, 300), quality = 70\<rparr>" .
  from opn demo_open have src: "src = \<lparr>mode = ''RGBA'', width = 2000, height = 1000\<rparr>" by simp
  with c1 have img: "img = \<lparr>mode = ''RGB'', width = 2000, height = 1000\<rparr>"
    by (simp add: demo_env_def)
  from th have "resized = \<lparr>mode = ''RGB'', width = 300, height = 150\<rparr>"
    by (simp add: img cfg demo_env_def demo_thumbnail_def)
  with f enc cfg have "map_of (files w') ?q
      = Some (File n (Encoded WEBP 70 True \<lparr>mode = ''RGB'', width = 300, height = 150\<rparr>))" by simp
  with run sv q demo_catalog show ?thesis by auto
qed

text \<open>
  C8. Let the resizer keep its contract (\<open>codec_contract\<close>) and every box of the catalog have
  positive sides. Then every file that \<open>optimize_image\<close> saves for a profile holds an image
  whose sides do not exceed the profile's box; when the decoded source is inside the box
  already, the image has the size of the source (it is never enlarged); and the proportion of
  its sides is that of the source up to the rounding of one side. Each profile is resized from
  a fresh copy of the source, never from the result of an earlier profile.
\<close>

theorem artifact_fits_box:
  assumes run: "optimize_image E image_path (self, w) = (r, self', w')"
      and dist: "distinct (map fst (sizes_config self))"
      and sv: "saved w' = saved w @ ws" and q: "q \<in> set ws"
      and contract: "codec_contract E"
      and pos: "\<forall>item \<in> set (sizes_config self).
                  0 < fst (size_wh (snd item)) \<and> 0 < snd (size_wh (snd item))"
  shows "\<exists>src nm cfg enc resized n.
           Image_open E w image_path = Ret src
         \<and> (nm, cfg) \<in> set (sizes_config self)
         \<and> q = artifact_path (optimized_folder self) nm (stem image_path) enc
         \<and> map_of (files w') q = Some (File n (Encoded enc (quality cfg) True resized))
         \<and> width resized \<le> fst (size_wh cfg) \<and> height resized \<le> snd (size_wh cfg)
         \<and> (width src \<le> fst (size_wh cfg) \<and> height src \<le> snd (size_wh cfg)
              \<longrightarrow> width resized = width src \<and> height resized = height src)
         \<and> \<bar>int (width resized) * int (height src) - int (height resized) * int (width src)\<bar>
              \<le> int (max (width src) (height src))"
proof -
  from saved_artifact[OF run dist sv q] obtain src img nm cfg enc resized n where
    opn: "Image_open E w image_path = Ret src" and rgb: "to_rgb E src = Ret img"
    and mem: "(nm, cfg) \<in> set (sizes_config self)"
    and qq: "q = artifact_path (optimized_folder self) nm (stem image_path) enc"
    and th: "thumbnail E img (size_wh cfg) LANCZOS = Ret resized"
    and f: "map_of (files w') q = Some (File n (Encoded enc (quality cfg) True resized))"
    by blast
  from rgb contract have d: "dims img = dims src"
    by (auto simp: to_rgb_def codec_contract_def split: if_splits)
  from pos mem have "0 < fst (size_wh cfg) \<and> 0 < snd (size_wh cfg)" by force
  with contract th have "shrunk_to_fit (dims img) (size_wh cfg) (dims resized)"
    unfolding codec_contract_def by blast
  with d have "shrunk_to_fit (dims src) (size_wh cfg) (dims resized)" by simp
  then have
    "width resized \<le> fst (size_wh cfg) \<and> height resized \<le> snd (size_wh cfg)
     \<and> (width src \<le> fst (size_wh cfg) \<and> height src \<le> snd (size_wh cfg)
              \<longrightarrow> width resized = width src \<and> height resized = height src)
     \<and> \<bar>int (width resized) * int (height src) - int (height resized) * int (width src)\<bar>
              \<le> int (max (width src) (height src))"
    by (simp add: shrunk_to_fit_def dims_def)
  with opn mem qq f show ?thesis by blast
qed

theorem artifact_fits_box_witness:
  "codec_contract demo_env
   \<and> distinct (map fst (sizes_config demo_self))
   \<and> artifact_path (optimized_folder demo_self) ''thumb'' ''a1'' JPEG
       \<in> set (saved (snd (snd (optimize_image demo_env demo_src (demo_self, demo_world)))))
   \<and> (\<exists>n q resized.
         map_of (files (snd (snd (optimize_image demo_env demo_src (demo_self, demo_world)))))
             (artifact_path (optimized_folder demo_self) ''thumb'' ''a1'' JPEG)
           = Some (File n (Encoded JPEG q True resized))
         \<and> width resized \<le> 300 \<and> height resized \<le> 300)"
proof -
  let ?q = "artifact_path (optimized_folder demo_self) ''thumb'' ''a1'' JPEG"
  obtain self' w' where run: "optimize_image demo_env demo_src (demo_self, demo_world) = (Ret True, self', w')"
    and sv: "saved w' = planned (optimized_folder demo_self) ''a1'' (sizes_config demo_self)"
    by (rule demo_run)
  have sv': "saved w' = saved demo_world @ planned (optimized_folder demo_self) ''a1'' (sizes_config demo_self)"
    using sv by (simp add: demo_world_def)
  have q: "?q \<in> set (planned (optimized_folder demo_self) ''a1'' (sizes_config demo_self))"
    by (simp add: planned_def demo_self_def GitImageOptimizer_def)
  from artifact_fits_box[OF run demo_catalog sv' q demo_contract demo_positive]
  obtain nm cfg enc resized n where
    mem: "(nm, cfg) \<in> set (sizes_config demo_self)"
    and qq: "?q = artifact_path (optimized_folder demo_self) nm (stem demo_src) enc"
    and f: "map_of (files w') ?q = Some (File n (Encoded enc (quality cfg) True resized))"
    and b: "width resized \<le> fst (size_wh cfg)" "height resized \<le> snd (size_wh cfg)"
    by blast
  from qq have nm: "nm = ''thumb''" and enc: "enc = JPEG"
    by (simp_all add: demo_stem artifact_path_inj)
  from demo_thumb[OF mem nm] have cfg: "cfg = \<lparr>size_wh = (300, 300), quality = 70\<rparr>" .
  from f b enc cfg have "\<exists>n q resized. map_of (files w') ?q = Some (File n (Encoded JPEG q True resized))
         \<and> width resized \<le> 300 \<and> height resized \<le> 300" by auto
  with run sv q demo_catalog demo_contract show ?thesis by auto
qed


text \<open>
  C6, as the claim states it, fails: with six paths in the manifest, the publisher is handed
  two paths to stage, the directory \<open>optimizadas/\<close> and \<open>.gitignore\<close>, not the six paths
  and \<open>.gitignore\<close>.
\<close>

theorem publish_stages_manifest_counterexample:
  "length (processed_files demo_done) = 6
   \<and> staged (procs (snd (snd (git_commit_and_push demo_env (demo_done, demo_world)))))
       = [''optimizadas/'', ''.gitignore'']"
  by (simp add: demo_publish staged_def publish_commands_def)
     (simp add: demo_done_def planned_def demo_self_def GitImageOptimizer_def)

text \<open>
  C6, amended. Every publish changes into \<open>repo_path\<close> and then starts, in this order,
  \<open>git add optimizadas/\<close>, \<open>git add .gitignore\<close>, \<open>git commit -m\<close> with a message that
  embeds the number of entries of \<open>processed_files\<close>, and \<open>git push\<close>: exactly the commands
  up to and including the first one that fails, and none when \<open>repo_path\<close> is not a
  directory (\<open>attempted\<close>). When it returns \<open>True\<close> it has run all four. What it stages is
  the fixed directory and the fixed configuration file, whatever the manifest holds.
\<close>

theorem publish_commands_run:
  assumes "git_commit_and_push E (self, w) = (r, self', w')"
  shows "procs w' = procs w @ attempted E self w
       \<and> prefix (attempted E self w) (publish_commands (length (processed_files self)))
       \<and> (r = Ret True \<or> r = Ret False)
       \<and> (r = Ret True \<longrightarrow> attempted E self w = publish_commands (length (processed_files self)))
       \<and> set (staged (attempted E self w)) \<subseteq> {''optimizadas/'', ''.gitignore''}"
proof -
  note p = git_commit_and_push_procs[OF assms]
  from git_commit_and_push_effect[OF assms] obtain cmds where
    c: "procs w' = procs w @ cmds"
    and t: "r = Ret True \<longrightarrow> cmds = publish_commands (length (processed_files self))"
    and b: "r = Ret True \<or> r = Ret False"
    by blast
  from p c have "cmds = attempted E self w" by simp
  with t have "r = Ret True \<longrightarrow> attempted E self w = publish_commands (length (processed_files self))"
    by simp
  with p b attempted_prefix[of E self w] staged_prefix[OF attempted_prefix[of E self w]]
  show ?thesis by blast
qed

theorem publish_commands_run_witness:
  "attempted unchanged_env demo_done demo_world
     = [[''git'', ''add'', ''optimizadas/''], [''git'', ''add'', ''.gitignore''],
        [''git'', ''commit'', ''-m'', commit_message 6]]
   \<and> procs (snd (snd (git_commit_and_push unchanged_env (demo_done, demo_world))))
     = [[''git'', ''add'', ''optimizadas/''], [''git'', ''add'', ''.gitignore''],
        [''git'', ''commit'', ''-m'', commit_message 6]]
   \<and> fst (git_commit_and_push unchanged_env (demo_done, demo_world)) = Ret False
   \<and> procs (snd (snd (git_commit_and_push demo_env (demo_done, demo_world))))
     = [[''git'', ''add'', ''optimizadas/''], [''git'', ''add'', ''.gitignore''],
        [''git'', ''commit'', ''-m'', commit_message 6], [''git'', ''push'']]
   \<and> fst (git_commit_and_push demo_env (demo_done, demo_world)) = Ret True"
proof -
  obtain r self' w' where run: "git_commit_and_push demo_env (demo_done, demo_world) = (r, self', w')"
    by (metis prod_cases3)
  obtain r2 self2 w2 where
    run2: "git_commit_and_push unchanged_env (demo_done, demo_world) = (r2, self2, w2)"
    by (metis prod_cases3)
  have ok: "r = Ret True" using run demo_publish by simp
  have no: "r2 = Ret False" using run2 unchanged_publish by simp
  have six: "length (processed_files demo_done) = 6"
    by (simp add: demo_done_def planned_def demo_self_def GitImageOptimizer_def)
  have a: "attempted unchanged_env demo_done demo_world
     = [[''git'', ''add'', ''optimizadas/''], [''git'', ''add'', ''.gitignore''],
        [''git'', ''commit'', ''-m'', commit_message 6]]"
    using demo_dir by (simp add: attempted_unchanged done_fields publish_commands_def)
  from publish_commands_run[OF run] ok six
  have "procs w' = procs demo_world @ publish_commands 6" by auto
  then have p: "procs w' = publish_commands 6" by (simp add: demo_world_def)
  from publish_commands_run[OF run2]
  have "procs w2 = procs demo_world @ attempted unchanged_env demo_done demo_world" by blast
  then have p2: "procs w2 = attempted unchanged_env demo_done demo_world"
    by (simp add: demo_world_def)
  from a p p2 ok no run run2 show ?thesis by (simp add: publish_commands_def)
qed

text \<open>
  C10, as the claim states it, fails: a publish for a repository path that is not a
  directory returns \<open>False\<close> and leaves the working directory where it was, because
  \<open>os.chdir\<close> itself raises.
\<close>

theorem publish_without_directory_counterexample:
  "fst (git_commit_and_push demo_env (demo_done, lost_world)) = Ret False
   \<and> cwd lost_world = [''C:'']
   \<and> cwd (snd (snd (git_commit_and_push demo_env (demo_done, lost_world)))) = [''C:'']
   \<and> repo_path demo_done = [''C:'', ''Users'', ''Lenovo'', ''Pictures'', ''imglizza'']
   \<and> cwd (snd (snd (git_commit_and_push demo_env (demo_done, lost_world)))) \<noteq> repo_path demo_done"
  by (simp add: lost_publish done_fields) (simp add: lost_world_def main_repo_path_def)

text \<open>
  C10, amended. A publish for a repository path that is a directory leaves the working
  directory of the process at \<open>repo_path\<close>, whether it returns \<open>True\<close> or \<open>False\<close>: nothing
  changes it back. When the path is not a directory, the publish returns \<open>False\<close>, starts
  no command and leaves the working directory as it was. In both cases the optimizer
  object, the list \<open>processed_files\<close> included, is unchanged. (In a run of
  \<open>run_full_optimization\<close> on a new optimizer the path is a directory when the publish is
  reached, \<open>publish_reached_in_directory\<close>, so a run that publishes ends in \<open>repo_path\<close>:
  \<open>run_publish_changes_directory\<close>.)
\<close>

theorem publish_changes_directory:
  assumes "git_commit_and_push E (self, w) = (r, self', w')"
  shows "self' = self \<and> (r = Ret True \<or> r = Ret False)
       \<and> cwd w' = (if is_dir (files w) (repo_path self) then repo_path self else cwd w)
       \<and> (is_dir (files w) (repo_path self) \<or> (r = Ret False \<and> procs w' = procs w))"
proof (cases "is_dir (files w) (repo_path self)")
  case True
  with git_commit_and_push_effect[OF assms] show ?thesis by simp
next
  case False
  with git_commit_and_push_effect[OF assms] git_commit_and_push_no_directory[OF assms False]
  show ?thesis by simp
qed

theorem publish_changes_directory_witness:
  "is_dir (files demo_world) (repo_path demo_done)
   \<and> cwd demo_world = [''C:'']
   \<and> fst (git_commit_and_push offline_env (demo_done, demo_world)) = Ret False
   \<and> cwd (snd (snd (git_commit_and_push offline_env (demo_done, demo_world)))) = main_repo_path"
proof -
  have d: "is_dir (files demo_world) (repo_path demo_done)"
    using demo_dir by (simp add: done_fields)
  from publish_changes_directory[OF offline_publish] d
  have "cwd (demo_world\<lparr>cwd := main_repo_path, procs := publish_commands 6,
                  out := [MsgUploading, MsgPushError ''fatal: unable to access'']\<rparr>)
        = repo_path demo_done" by simp
  then show ?thesis using d offline_publish
    by (simp add: demo_world_def demo_done_def demo_self_def GitImageOptimizer_def)
qed






text \<open>
  C3 does not hold of the code. \<open>os.path.getsize(image_path)\<close> stands before the \<open>try\<close> of
  \<open>optimize_image\<close>, so a discovered source that cannot be stat'ed raises out of
  \<open>optimize_image\<close> and out of the loop of \<open>process_all_images\<close>, which has no handler. In
  the world whose source directory lists the broken link \<open>a0.png\<close> before \<open>a1.png\<close>, the
  batch ends with \<open>FileNotFoundError\<close>, \<open>a1.png\<close> is never processed and the script exits
  with status 1. A source that fails inside the \<open>try\<close> is isolated: when \<open>a0.png\<close> is a
  file that cannot be decoded, the batch goes on to \<open>a1.png\<close> and returns \<open>True\<close>.
  (\<open>process_loop_Raise\<close>: with a standard output that takes every line, a failed stat
  is the only exception that leaves the loop.)
\<close>

theorem unreadable_source_aborts_batch:
  "discovered demo_env (demo_self, broken_world) = [broken_src, demo_src]
   \<and> os_path_getsize broken_world broken_src = Raise FileNotFoundError
   \<and> process_all_images demo_env (demo_self, broken_world)
       = (Raise FileNotFoundError, demo_self, broken_world\<lparr>out := [MsgProcessing, MsgFound 2]\<rparr>)
   \<and> fst (script demo_env broken_world) = 1
   \<and> fst (process_all_images demo_env (demo_self, garbled_world)) = Ret True"
proof -
  have d: "discovered demo_env (demo_self, broken_world) = [broken_src, demo_src]"
    by (simp add: discovered_def batch_eval broken_world_def broken_src_def)
  have g: "os_path_getsize broken_world broken_src = Raise FileNotFoundError"
    by (simp add: batch_eval broken_world_def broken_src_def)
  have c: "os_path_exists broken_world main_repo_path"
    "os_path_exists broken_world (main_repo_path @ [''.git''])"
    by (simp_all add: checks_eval broken_world_def)
  obtain s3 where "process_all_images demo_env
     (demo_self, broken_world\<lparr>files := files broken_world @ [gitignore_entry],
                    out := [MsgBanner main_repo_path, MsgSetup, MsgSetupDone]\<rparr>)
     = (Raise FileNotFoundError, s3)"
    using batch_broken_booted by (metis prod.collapse)
  then have s: "fst (script demo_env broken_world) = 1"
    by (simp add: script_def main_def c demo_self_fold run_full_optimization_bootstrap boot_broken
          split: prod.splits)
  from d g s batch_broken batch_garbled show ?thesis by simp
qed

text \<open>
  C4. If a run of \<open>run_full_optimization\<close> shows any sign of a publish (the line that
  \<open>git_commit_and_push\<close> prints first, a subprocess, a changed working directory), then the
  bootstrap returned, sources were discovered and the number of sources for which
  \<open>optimize_image\<close> returned \<open>True\<close> is greater than 0. So with no source found, or none
  succeeded, nothing is published.
\<close>

theorem publish_only_after_success:
  assumes run: "run_full_optimization E (self, w) = (r, self', w')"
      and pub: "MsgUploading \<in> set (drop (length (out w)) (out w'))
                \<or> procs w' \<noteq> procs w \<or> cwd w' \<noteq> cwd w"
  shows "\<exists>u s2. bootstrap E (self, w) = (Ret u, s2)
           \<and> discovered E s2 \<noteq> [] \<and> 0 < succeeded E s2"
proof -
  have no: False if "quiet w w'"
    using quiet_no_upload[OF that] pub by simp
  from run_full_optimization_cases[OF run] show ?thesis
  proof (elim disjE exE conjE)
    fix e
    assume "bootstrap E (self, w) = (Raise e, self', w')"
    from bootstrap_quiet[OF this] no show ?thesis by simp
  next
    fix u s2 e
    assume b: "bootstrap E (self, w) = (Ret u, s2)" and p: "process_all_images E s2 = (Raise e, self', w')"
    from bootstrap_quiet[of E self w "Ret u" "fst s2" "snd s2"] b have "quiet w (snd s2)" by simp
    moreover from process_all_images_cases[OF p] have "quiet (snd s2) w'" by auto
    ultimately have "quiet w w'" by (rule quiet_trans)
    with no show ?thesis by simp
  next
    fix u s2 s3
    assume b: "bootstrap E (self, w) = (Ret u, s2)" and p: "process_all_images E s2 = (Ret False, s3)"
      and s': "(self', w') = (fst s3, py_print MsgNotProcessed (snd s3))"
    from bootstrap_quiet[of E self w "Ret u" "fst s2" "snd s2"] b have "quiet w (snd s2)" by simp
    moreover from process_all_images_cases[OF p] have "quiet (snd s2) (snd s3)" by auto
    ultimately have "quiet w (snd s3)" by (rule quiet_trans)
    then have "quiet w (py_print MsgNotProcessed (snd s3))" by (rule quiet_print_right) simp
    with s' no show ?thesis by simp
  next
    fix u s2 s3 pushed s4
    assume b: "bootstrap E (self, w) = (Ret u, s2)" and p: "process_all_images E s2 = (Ret True, s3)"
    from process_all_images_cases[OF p] have "discovered E s2 \<noteq> [] \<and> 0 < succeeded E s2"
      by auto
    with b show ?thesis by blast
  qed
qed

theorem publish_only_after_success_witness:
  "MsgUploading \<in> set (out (snd (snd (run_full_optimization offline_env (demo_self, demo_world)))))
   \<and> 0 < succeeded offline_env (snd (bootstrap offline_env (demo_self, demo_world)))"
proof -
  obtain r self' w' where run: "run_full_optimization offline_env (demo_self, demo_world) = (r, self', w')"
    by (metis prod_cases3)
  obtain s3 where p: "process_all_images offline_env
     (demo_self, demo_world\<lparr>files := files demo_world @ [gitignore_entry],
                  out := [MsgBanner main_repo_path, MsgSetup, MsgSetupDone]\<rparr>) = (Ret True, s3)"
    using batch_demo by (metis prod.collapse)
  from published_after_success[OF run boot_demo p]
  have pub: "MsgUploading \<in> set (drop (length (out demo_world)) (out w'))" .
  then have m: "MsgUploading \<in> set (out w')" by (simp add: demo_world_def)
  from publish_only_after_success[OF run] pub
  obtain u s2 where "bootstrap offline_env (demo_self, demo_world) = (Ret u, s2)"
    and "0 < succeeded offline_env s2" by blast
  then have "0 < succeeded offline_env (snd (bootstrap offline_env (demo_self, demo_world)))"
    by simp
  with m run show ?thesis by simp
qed

text \<open>
  C5, as the claim states it, fails: with no source in the source directory the script ends
  with status 0. \<open>main\<close> returns \<open>None\<close> on every path and nothing calls \<open>sys.exit\<close>.
\<close>

theorem exit_status_counterexample:
  "discovered demo_env (snd (bootstrap demo_env (demo_self, empty_world))) = []
   \<and> fst (script demo_env empty_world) = 0"
proof -
  have c: "os_path_exists empty_world main_repo_path"
    "os_path_exists empty_world (main_repo_path @ [''.git''])"
    by (simp_all add: checks_eval empty_world_def)
  have s: "fst (script demo_env empty_world) = 0"
    by (simp add: script_def main_def c demo_self_fold run_full_optimization_bootstrap boot_empty'
          batch_empty)
  have "discovered demo_env (demo_self, empty_world\<lparr>files := demo_dirs @ [gitignore_entry],
                   out := [MsgBanner main_repo_path, MsgSetup, MsgSetupDone]\<rparr>) = []"
    by (simp add: discovered_def batch_eval empty_world_def)
  then have d: "discovered demo_env (snd (bootstrap demo_env (demo_self, empty_world))) = []"
    by (simp add: boot_empty')
  from d s show ?thesis by simp
qed

text \<open>
  C5, amended. Whenever the bootstrap and \<open>process_all_images\<close> return, the exit status is
  0: whether sources were found or not, whether any succeeded or not, and whatever the
  publish does.
\<close>

theorem exit_status_zero_when_batch_returns:
  assumes b: "bootstrap E (GitImageOptimizer main_repo_path, w) = (Ret u, s2)"
      and p: "process_all_images E s2 = (Ret ok, s3)"
  shows "fst (script E w) = 0"
proof -
  obtain r self' w' where run: "run_full_optimization E (GitImageOptimizer main_repo_path, w) = (r, self', w')"
    by (metis prod_cases3)
  from run_full_optimization_cases[OF run] b p have "r = Ret ()" by auto
  with run show ?thesis
    by (simp add: script_def main_def Let_def split: prod.splits sum.splits)
qed


theorem exit_status_zero_when_batch_returns_witness:
  "fst (process_all_images offline_env
          (snd (bootstrap offline_env (GitImageOptimizer main_repo_path, demo_world)))) = Ret True
   \<and> fst (script offline_env demo_world) = 0"
proof -
  obtain s3 where p: "process_all_images offline_env
     (demo_self, demo_world\<lparr>files := files demo_world @ [gitignore_entry],
                  out := [MsgBanner main_repo_path, MsgSetup, MsgSetupDone]\<rparr>) = (Ret True, s3)"
    using batch_demo by (metis prod.collapse)
  have b: "bootstrap offline_env (GitImageOptimizer main_repo_path, demo_world)
     = (Ret (), demo_self, demo_world\<lparr>files := files demo_world @ [gitignore_entry],
                  out := [MsgBanner main_repo_path, MsgSetup, MsgSetupDone]\<rparr>)"
    using boot_demo by (simp add: demo_self_fold)
  from exit_status_zero_when_batch_returns[OF b p]
  have "fst (script offline_env demo_world) = 0" .
  with p boot_demo show ?thesis by (simp add: demo_self_fold)
qed


end
